theory Spec2Isabelle
  imports Complex_Main
begin

section \<open>Midna: dependency usage auditor\<close>

text \<open>
  A shallow embedding of the evidence-collection and classification engine:
  \<^verbatim>\<open>src/confidence.ts\<close>, \<^verbatim>\<open>src/parser.ts\<close>, \<^verbatim>\<open>src/scanner.ts\<close>, \<^verbatim>\<open>src/cache.ts\<close>,
  \<^verbatim>\<open>src/package.ts\<close> and \<^verbatim>\<open>src/analyzer.ts\<close>.

  Conventions of the embedding.
  \<^item> A JavaScript string is a \<^typ>\<open>string\<close>; every \<^typ>\<open>char\<close> stands for one UTF-16 code
    unit in the range 0..255, so the development covers the strings whose code units lie in
    that range (ASCII and Latin-1).
  \<^item> A JavaScript number is a \<^typ>\<open>real\<close>: decimal literals are exact fractions and
    arithmetic is exact; rounding of IEEE doubles and the value Infinity are outside the
    model. Where the code can produce NaN from strings alone (the confidence of evidence
    whose type names an inherited member of the score table) the number is a
    \<^typ>\<open>real option\<close>, with \<open>None\<close> for NaN.
  \<^item> An exception is a value: \<open>None\<close>, or a flag next to the state that was built before
    the throw. Limits of the engine (stack depth, memory) are outside the model.
\<close>

subsection \<open>Types (\<^verbatim>\<open>src/types.ts\<close>)\<close>

text \<open>
  An evidence type is a string. The declared union has the nine members
  \<^verbatim>\<open>static_import\<close>, \<^verbatim>\<open>dynamic_import\<close>, \<^verbatim>\<open>require\<close>, \<^verbatim>\<open>config_reference\<close>,
  \<^verbatim>\<open>string_reference\<close>, \<^verbatim>\<open>plugin_reference\<close>, \<^verbatim>\<open>type_import\<close>, \<^verbatim>\<open>export_from\<close> and
  \<^verbatim>\<open>css_import\<close>; the union is erased at run time, and the test suite feeds another string
  to the confidence function through a cast.
\<close>

type_synonym EvidenceType = string

datatype DependencyStatus = used | unused | uncertain

datatype UsageSide = client | server | both | unknown

datatype DependencySection =
  dependencies | devDependencies | optionalDependencies | peerDependencies

record EvidenceEntry =
  e_file :: string
  e_line :: "int option"
  e_type :: EvidenceType
  e_snippet :: "string option"

subsection \<open>Confidence and classification (\<^verbatim>\<open>src/confidence.ts\<close>)\<close>

text \<open>
  The score table and the sections of the manifest are plain objects. A property read
  \<^verbatim>\<open>obj[key]\<close> finds an own property first and then the members that every plain object
  inherits from \<^verbatim>\<open>Object.prototype\<close>; each of those is a function or an object, so it is
  truthy and converts to the number NaN. A key that names neither reads \<^verbatim>\<open>undefined\<close>.
\<close>

definition Object_prototype_properties :: "string list" where
  "Object_prototype_properties =
     [''constructor'', ''__defineGetter__'', ''__defineSetter__'', ''hasOwnProperty'',
      ''__lookupGetter__'', ''__lookupSetter__'', ''isPrototypeOf'', ''propertyIsEnumerable'',
      ''toString'', ''valueOf'', ''__proto__'', ''toLocaleString'']"

datatype 'a property = Own 'a | Inherited | Undefined

definition read_property :: "(string \<times> 'a) list \<Rightarrow> string \<Rightarrow> 'a property" where
  "read_property obj key =
     (case map_of obj key of
        Some v \<Rightarrow> Own v
      | None \<Rightarrow> if key \<in> set Object_prototype_properties then Inherited else Undefined)"

definition EVIDENCE_SCORES :: "(EvidenceType \<times> real) list" where
  "EVIDENCE_SCORES =
     [(''static_import'', 1), (''type_import'', 9/10), (''export_from'', 1), (''require'', 1),
      (''dynamic_import'', 8/10), (''css_import'', 9/10), (''config_reference'', 4/10),
      (''string_reference'', 3/10), (''plugin_reference'', 5/10)]"

text \<open>
  \<^verbatim>\<open>EVIDENCE_SCORES[e.type] || 0.5\<close>, as \<^verbatim>\<open>Math.max\<close> then converts it to a number: a
  missing key and a score of zero both give 0.5; an inherited member is truthy, so it is
  kept, and it is not a number.
\<close>

definition score :: "EvidenceEntry \<Rightarrow> real option" where
  "score e =
     (case read_property EVIDENCE_SCORES (e_type e) of
        Own s \<Rightarrow> Some (if s = 0 then 5/10 else s)
      | Inherited \<Rightarrow> None
      | Undefined \<Rightarrow> Some (5/10))"

text \<open>
  \<^verbatim>\<open>Math.max(...xs)\<close> is only reached with a non-empty list; it is NaN when one of the
  arguments is, and otherwise the left fold of \<open>max\<close> from the first element. A sum with
  NaN and \<^verbatim>\<open>Math.min\<close> of NaN are NaN.
\<close>

definition max_number :: "real option \<Rightarrow> real option \<Rightarrow> real option" where
  "max_number x acc =
     (case acc of
        None \<Rightarrow> None
      | Some a \<Rightarrow> (case x of None \<Rightarrow> None | Some b \<Rightarrow> Some (max b a)))"

fun calculateConfidence :: "EvidenceEntry list \<Rightarrow> real option" where
  "calculateConfidence [] = Some 0"
| "calculateConfidence (e # es) =
     (let maxScore = fold max_number (map score es) (score e);
          evidenceBoost = min ((real (length (e # es)) - 1) * (5/100)) (15/100)
      in case maxScore of
           None \<Rightarrow> None
         | Some m \<Rightarrow> Some (min (m + evidenceBoost) 1))"

definition classifyDependency :: "real \<Rightarrow> real \<Rightarrow> real \<Rightarrow> DependencyStatus" where
  "classifyDependency confidence minUnused minUsed =
     (if confidence \<ge> minUsed then used
      else if confidence < minUnused then unused
      else uncertain)"

text \<open>The base weight of an evidence type: the score of an entry of that type.\<close>

definition base_weight :: "EvidenceType \<Rightarrow> real option" where
  "base_weight t = score \<lparr>e_file = [], e_line = None, e_type = t, e_snippet = None\<rparr>"

text \<open>
  The table of weights as the specification lists it, with 0.5 for every type that is not
  listed.
\<close>

definition spec_weight :: "EvidenceType \<Rightarrow> real" where
  "spec_weight t =
     (if t = ''static_import'' \<or> t = ''export_from'' \<or> t = ''require'' then 1
      else if t = ''type_import'' \<or> t = ''css_import'' then 9/10
      else if t = ''dynamic_import'' then 8/10
      else if t = ''plugin_reference'' then 5/10
      else if t = ''config_reference'' then 4/10
      else if t = ''string_reference'' then 3/10
      else 5/10)"

subsection \<open>Strings: \<^verbatim>\<open>split\<close>, \<^verbatim>\<open>startsWith\<close>\<close>

text \<open>\<^verbatim>\<open>s.split(sep)\<close> for a one-character separator; the empty string splits into \<open>[ [] ]\<close>.\<close>

fun split :: "char \<Rightarrow> string \<Rightarrow> string list" where
  "split sep [] = [ [] ]"
| "split sep (c # cs) =
     (if c = sep then [] # split sep cs
      else (case split sep cs of
              [] \<Rightarrow> [ [c] ]
            | p # ps \<Rightarrow> (c # p) # ps))"

definition startsWith :: "string \<Rightarrow> string \<Rightarrow> bool" where
  "startsWith s p = (take (length p) s = p)"

subsection \<open>Package-name normalization (\<^verbatim>\<open>src/parser.ts\<close>, \<^verbatim>\<open>src/scanner.ts\<close>)\<close>

text \<open>
  The first \<^verbatim>\<open>return\<close> of the source is the \<open>Some\<close> branch of \<open>scoped\<close>; \<open>parts[0]\<close> and
  \<open>parts[1]\<close> are read inside their bounds (\<open>split\<close> never returns the empty list).
\<close>

definition normalizePackageName :: "string \<Rightarrow> string" where
  "normalizePackageName importPath =
     (let scoped =
            (if startsWith importPath ''@'' then
               (let parts = split (CHR ''/'') importPath
                in if length parts \<ge> 2 then Some (parts ! 0 @ ''/'' @ parts ! 1) else None)
             else None)
      in case scoped of
           Some r \<Rightarrow> r
         | None \<Rightarrow> (let parts = split (CHR ''/'') importPath in parts ! 0))"

text \<open>The exported copy in \<^verbatim>\<open>src/scanner.ts\<close> has the same body.\<close>

definition scanner_normalizePackageName :: "string \<Rightarrow> string" where
  "scanner_normalizePackageName importPath =
     (let scoped =
            (if startsWith importPath ''@'' then
               (let parts = split (CHR ''/'') importPath
                in if length parts \<ge> 2 then Some (parts ! 0 @ ''/'' @ parts ! 1) else None)
             else None)
      in case scoped of
           Some r \<Rightarrow> r
         | None \<Rightarrow> (let parts = split (CHR ''/'') importPath in parts ! 0))"

text \<open>
  The specification's reading of normalization, stated without \<open>split\<close>: the first segment
  is the text before the first slash, the second segment the text between the first slash
  and the next one. A specifier has at least two segments exactly when it contains a slash.
\<close>

definition spec_first_segment :: "string \<Rightarrow> string" where
  "spec_first_segment s = takeWhile (\<lambda>c. c \<noteq> CHR ''/'') s"

definition spec_second_segment :: "string \<Rightarrow> string" where
  "spec_second_segment s =
     takeWhile (\<lambda>c. c \<noteq> CHR ''/'') (tl (dropWhile (\<lambda>c. c \<noteq> CHR ''/'') s))"

definition spec_normalize :: "string \<Rightarrow> string" where
  "spec_normalize s =
     (if startsWith s ''@'' \<and> CHR ''/'' \<in> set s
      then spec_first_segment s @ ''/'' @ spec_second_segment s
      else spec_first_segment s)"

subsection \<open>Directive detection (\<^verbatim>\<open>src/parser.ts\<close>, \<^verbatim>\<open>src/scanner.ts\<close>)\<close>

text \<open>
  \<^verbatim>\<open>String.prototype.trim\<close> removes white space and line terminators at both ends; among
  the code units 0..255 these are TAB, LF, VT, FF, CR, SPACE and NBSP.
\<close>

definition js_whitespace :: "char \<Rightarrow> bool" where
  "js_whitespace c =
     (c \<in> set [CHR 0x09, CHR 0x0A, CHR 0x0B, CHR 0x0C, CHR 0x0D, CHR 0x20, CHR 0xA0])"

definition trim :: "string \<Rightarrow> string" where
  "trim s = rev (dropWhile js_whitespace (rev (dropWhile js_whitespace s)))"

text \<open>\<^verbatim>\<open>s.replace(/;$/, '')\<close>: without the \<^verbatim>\<open>m\<close> flag, \<^verbatim>\<open>$\<close> is the end of the string.\<close>

definition replace_trailing_semi :: "string \<Rightarrow> string" where
  "replace_trailing_semi s = (if s \<noteq> [] \<and> last s = CHR '';'' then butlast s else s)"

text \<open>The two literals \<^verbatim>\<open>'"use client"'\<close> and \<^verbatim>\<open>"'use client'"\<close>.\<close>

definition use_client_dq :: string where
  \<open>use_client_dq = ''"use client"''\<close>

definition use_client_sq :: string where
  "use_client_sq = CHR 0x27 # ''use client'' @ [CHR 0x27]"

text \<open>The \<^verbatim>\<open>for\<close> loop of \<^verbatim>\<open>detectUseClient\<close> over the first 20 lines.\<close>

fun detectUseClient_loop :: "string list \<Rightarrow> bool" where
  "detectUseClient_loop [] = False"
| "detectUseClient_loop (line # rest) =
     (let trimmed = trim line;
          withoutSemi = replace_trailing_semi trimmed
      in if withoutSemi = use_client_dq \<or> withoutSemi = use_client_sq then True
         else if trimmed \<noteq> [] \<and> \<not> startsWith trimmed ''//'' then False
         else detectUseClient_loop rest)"

definition detectUseClient :: "string \<Rightarrow> bool" where
  "detectUseClient content = detectUseClient_loop (take 20 (split (CHR 0x0A) content))"

text \<open>\<^verbatim>\<open>hasUseClient\<close> of the scanner: \<^verbatim>\<open>firstLines.some(...)\<close> over the first 10 lines.\<close>

definition hasUseClient :: "string \<Rightarrow> bool" where
  "hasUseClient content =
     (let firstLines = take 10 (split (CHR 0x0A) content)
      in list_ex (\<lambda>line. trim line = use_client_dq \<or> trim line = use_client_sq) firstLines)"

text \<open>
  The specification's reading of the detector with a window of \<open>window\<close> lines: find the
  first line that is neither blank nor a line comment, and test it once.
\<close>

definition substantive :: "string \<Rightarrow> bool" where
  "substantive line = (trim line \<noteq> [] \<and> \<not> startsWith (trim line) ''//'')"

definition is_directive :: "string \<Rightarrow> bool" where
  "is_directive line =
     (replace_trailing_semi (trim line) = use_client_dq \<or>
      replace_trailing_semi (trim line) = use_client_sq)"

definition spec_detect :: "nat \<Rightarrow> string \<Rightarrow> bool" where
  "spec_detect window content =
     (case List.find substantive (take window (split (CHR 0x0A) content)) of
        None \<Rightarrow> False
      | Some line \<Rightarrow> is_directive line)"

subsection \<open>The environment: file system and platform functions\<close>

text \<open>
  What an exception can be. Only the fact that something was thrown is ever observed.
\<close>

datatype exn = IOError | SyntaxError | TypeError

text \<open>
  What the scan reads of a value that \<^verbatim>\<open>get\<close> hands out as a \<^verbatim>\<open>CacheEntry\<close>. The source
  assigns the result of \<^verbatim>\<open>JSON.parse\<close> to that type without checking it, so the value
  need not be one that \<^verbatim>\<open>set\<close> wrote: \<open>c_imports\<close> is \<open>None\<close> when its \<^verbatim>\<open>imports\<close> cannot be
  iterated (it is missing, \<^verbatim>\<open>null\<close>, a number, a boolean or an object), and otherwise the
  strings that the iteration yields (values that are not strings are never looked up and
  are left out); \<open>c_isClient\<close> is \<open>None\<close> when \<^verbatim>\<open>isClient\<close> is missing and otherwise says
  whether it is truthy.
\<close>

record CacheEntry =
  c_hash :: string
  c_mtime :: real
  c_imports :: "string list option"
  c_isClient :: "bool option"

text \<open>
  A file of the cache directory holds a text with which the \<^verbatim>\<open>try\<close> block of \<^verbatim>\<open>get\<close>
  throws whatever the source file is (\<open>Corrupt\<close>: \<^verbatim>\<open>JSON.parse\<close> rejects it, or it parses
  to \<^verbatim>\<open>null\<close>, whose \<^verbatim>\<open>mtime\<close> cannot be read), or the text of a value with a numeric
  \<^verbatim>\<open>mtime\<close> (\<open>Stored\<close>), or the text of any other value (\<open>Unrelated\<close>: its \<^verbatim>\<open>mtime\<close> is not
  a number and so differs from every modification time).
\<close>

datatype cache_file = Corrupt | Stored CacheEntry | Unrelated

text \<open>
  The file system as the scan sees it: \<open>files p\<close> is the result of
  \<^verbatim>\<open>readFile(p, 'utf-8')\<close> and \<open>mtimes p\<close> that of \<^verbatim>\<open>stat(p).mtimeMs\<close> (\<open>None\<close> when the
  call throws); \<open>cache_files\<close> is the content of the cache directory; \<open>write_ok p\<close> says
  whether \<^verbatim>\<open>mkdir\<close> and \<^verbatim>\<open>writeFile\<close> succeed for the cache file \<open>p\<close>. The file system is
  changed by the scan only: two reads of one source file during a scan agree.
  Source files and cache files are kept apart: a path of the cache directory is looked up
  in \<open>cache_files\<close> only.
\<close>

record fs =
  files :: "string \<Rightarrow> string option"
  mtimes :: "string \<Rightarrow> real option"
  cache_files :: "string \<Rightarrow> cache_file option"
  write_ok :: "string \<Rightarrow> bool"

subsection \<open>Cache (\<^verbatim>\<open>src/cache.ts\<close>)\<close>

text \<open>SHA-256 and \<^verbatim>\<open>path.join\<close> are functions of the platform, taken as parameters.\<close>

record cache_platform =
  sha256 :: "string \<Rightarrow> string"
  path_join :: "string \<Rightarrow> string \<Rightarrow> string"

record CacheOptions =
  o_cacheDir :: string
  o_enabled :: bool

record CacheManager =
  cacheDir :: string
  enabled :: bool

definition CACHE_DIRNAME :: string where
  "CACHE_DIRNAME = ''.midna-cache''"

definition new_CacheManager :: "'a cache_platform_scheme \<Rightarrow> CacheOptions \<Rightarrow> CacheManager" where
  "new_CacheManager pf options =
     \<lparr>cacheDir = path_join pf (o_cacheDir options) CACHE_DIRNAME,
      enabled = o_enabled options\<rparr>"

definition createHash :: "'a cache_platform_scheme \<Rightarrow> string \<Rightarrow> string" where
  "createHash pf content = sha256 pf content"

text \<open>
  \<^verbatim>\<open>replace(/[<>:"/\\|?*]/g, '_')\<close>, then \<^verbatim>\<open>replace(/^\.+/, '')\<close>, then \<^verbatim>\<open>slice(-50)\<close>.
\<close>

definition getCacheFilePath ::
  "'a cache_platform_scheme \<Rightarrow> CacheManager \<Rightarrow> string \<Rightarrow> string" where
  "getCacheFilePath pf this filePath =
     (let pathHash = take 16 (createHash pf filePath);
          replaced = map (\<lambda>c. if c \<in> set [CHR ''<'', CHR ''>'', CHR '':'', CHR 0x22, CHR ''/'',
                                           CHR 0x5C, CHR ''|'', CHR ''?'', CHR ''*'']
                               then CHR ''_'' else c) filePath;
          stripped = dropWhile (\<lambda>c. c = CHR ''.'') replaced;
          safeName = drop (length stripped - 50) stripped
      in path_join pf (cacheDir this) (pathHash @ ''_'' @ safeName @ ''.json''))"

text \<open>
  The body of the \<^verbatim>\<open>try\<close> block of \<^verbatim>\<open>get\<close>: \<open>Inl\<close> is a throw of \<^verbatim>\<open>readFile\<close>,
  \<^verbatim>\<open>JSON.parse\<close> or \<^verbatim>\<open>stat\<close>; \<open>Inr None\<close> is \<^verbatim>\<open>return null\<close>.
\<close>

definition CacheManager_get_try ::
  "'a cache_platform_scheme \<Rightarrow> CacheManager \<Rightarrow> fs \<Rightarrow> string \<Rightarrow> exn + CacheEntry option" where
  "CacheManager_get_try pf this fs filePath =
     (let cacheFilePath = getCacheFilePath pf this filePath
      in case cache_files fs cacheFilePath of
           None \<Rightarrow> Inl IOError
         | Some Corrupt \<Rightarrow> Inl SyntaxError
         | Some Unrelated \<Rightarrow>
             (case mtimes fs filePath of
                None \<Rightarrow> Inl IOError
              | Some currentMtime \<Rightarrow> Inr None)
         | Some (Stored cached) \<Rightarrow>
             (case mtimes fs filePath of
                None \<Rightarrow> Inl IOError
              | Some currentMtime \<Rightarrow>
                  if c_mtime cached \<noteq> currentMtime then Inr None else Inr (Some cached)))"

definition CacheManager_get ::
  "'a cache_platform_scheme \<Rightarrow> CacheManager \<Rightarrow> fs \<Rightarrow> string \<Rightarrow> exn + CacheEntry option" where
  "CacheManager_get pf this fs filePath =
     (if \<not> enabled this then Inr None
      else (case CacheManager_get_try pf this fs filePath of
              Inl _ \<Rightarrow> Inr None
            | Inr r \<Rightarrow> Inr r))"

text \<open>\<^verbatim>\<open>set\<close>: a failing \<^verbatim>\<open>mkdir\<close> or \<^verbatim>\<open>writeFile\<close> is swallowed and leaves the store as it was.\<close>

definition CacheManager_set ::
  "'a cache_platform_scheme \<Rightarrow> CacheManager \<Rightarrow> fs \<Rightarrow> string \<Rightarrow> CacheEntry \<Rightarrow> fs" where
  "CacheManager_set pf this fs filePath entry =
     (if \<not> enabled this then fs
      else (let cacheFilePath = getCacheFilePath pf this filePath
            in if write_ok fs cacheFilePath
               then fs\<lparr>cache_files := (cache_files fs)(cacheFilePath \<mapsto> Stored entry)\<rparr>
               else fs))"

subsection \<open>Regular expressions of the platform\<close>

text \<open>
  \<^verbatim>\<open>new RegExp(pattern, 'm').test(content)\<close> for the fragment of the pattern language that
  the scanner's patterns are written in: single characters, \<^verbatim>\<open>\s\<close>, a backslash before a
  syntax character, the dot, a class of listed characters, and the quantifiers \<^verbatim>\<open>*\<close>,
  \<^verbatim>\<open>+\<close>, \<^verbatim>\<open>?\<close> with an optional lazy mark. There are no anchors in this fragment, so the
  flag \<^verbatim>\<open>m\<close> changes nothing. A pattern outside the fragment, or one that is not a valid
  pattern at all, parses to \<open>None\<close>.
\<close>

datatype atom = AChar char | AClass "char list" | ASpace | ADot

datatype quantifier = One | ZeroOrMore | OneOrMore | ZeroOrOne

text \<open>An atom, its quantifier, and whether the quantifier is lazy.\<close>

datatype item = Item atom quantifier bool

definition backslash :: char where
  "backslash = CHR 0x5C"

definition single_quote :: char where
  "single_quote = CHR 0x27"

definition double_quote :: char where
  "double_quote = CHR 0x22"

text \<open>The syntax characters of the pattern language: \<^verbatim>\<open>^ $ \ . * + ? ( ) [ ] { } |\<close>.\<close>

definition syntax_character :: "char \<Rightarrow> bool" where
  "syntax_character c =
     (c \<in> set [CHR ''^'', CHR ''$'', backslash, CHR ''.'', CHR ''*'', CHR ''+'', CHR ''?'',
               CHR ''('', CHR '')'', CHR ''['', CHR '']'', CHR ''{'', CHR ''}'', CHR ''|''])"

text \<open>The dot matches every character except line terminators (LF and CR below 256).\<close>

definition line_terminator :: "char \<Rightarrow> bool" where
  "line_terminator c = (c \<in> set [CHR 0x0A, CHR 0x0D])"

fun atom_matches :: "atom \<Rightarrow> char \<Rightarrow> bool" where
  "atom_matches (AChar a) c = (c = a)"
| "atom_matches (AClass members) c = (c \<in> set members)"
| "atom_matches ASpace c = js_whitespace c"
| "atom_matches ADot c = (\<not> line_terminator c)"

text \<open>
  The parser reads the pattern from left to right. The first argument is \<open>Some members\<close>
  while inside a class, the second the items read so far, last one first.
\<close>

fun parse_pattern :: "char list option \<Rightarrow> item list \<Rightarrow> string \<Rightarrow> item list option" where
  "parse_pattern None acc [] = Some (rev acc)"
| "parse_pattern (Some members) acc [] = None"
| "parse_pattern (Some members) acc (c # cs) =
     (if c = CHR '']'' then parse_pattern None (Item (AClass (rev members)) One False # acc) cs
      else if c = backslash \<or> c = CHR ''-'' \<or> (c = CHR ''^'' \<and> members = []) then None
      else parse_pattern (Some (c # members)) acc cs)"
| "parse_pattern None acc (c # cs) =
     (if c = backslash then
        (case cs of
           [] \<Rightarrow> None
         | d # ds \<Rightarrow>
             if d = CHR ''s'' then parse_pattern None (Item ASpace One False # acc) ds
             else if syntax_character d then parse_pattern None (Item (AChar d) One False # acc) ds
             else None)
      else if c = CHR ''.'' then parse_pattern None (Item ADot One False # acc) cs
      else if c = CHR ''['' then parse_pattern (Some []) acc cs
      else if c = CHR ''*'' then
        (case acc of
           Item a One l # acc' \<Rightarrow> parse_pattern None (Item a ZeroOrMore False # acc') cs
         | _ \<Rightarrow> None)
      else if c = CHR ''+'' then
        (case acc of
           Item a One l # acc' \<Rightarrow> parse_pattern None (Item a OneOrMore False # acc') cs
         | _ \<Rightarrow> None)
      else if c = CHR ''?'' then
        (case acc of
           Item a One l # acc' \<Rightarrow> parse_pattern None (Item a ZeroOrOne False # acc') cs
         | Item a q False # acc' \<Rightarrow> parse_pattern None (Item a q True # acc') cs
         | _ \<Rightarrow> None)
      else if syntax_character c then None
      else parse_pattern None (Item (AChar c) One False # acc) cs)"

text \<open>
  \<open>match_here items s\<close>: some prefix of \<open>s\<close> is matched by the items in sequence. A
  backtracking matcher finds a match whenever one exists, in whatever order greedy and
  lazy quantifiers make it try, so laziness does not matter for \<^verbatim>\<open>test\<close>.
\<close>

fun match_here :: "item list \<Rightarrow> string \<Rightarrow> bool" where
  "match_here [] s = True"
| "match_here (Item a One l # rs) [] = False"
| "match_here (Item a One l # rs) (c # cs) = (atom_matches a c \<and> match_here rs cs)"
| "match_here (Item a ZeroOrOne l # rs) [] = match_here rs []"
| "match_here (Item a ZeroOrOne l # rs) (c # cs) =
     (match_here rs (c # cs) \<or> (atom_matches a c \<and> match_here rs cs))"
| "match_here (Item a ZeroOrMore l # rs) [] = match_here rs []"
| "match_here (Item a ZeroOrMore l # rs) (c # cs) =
     (match_here rs (c # cs) \<or> (atom_matches a c \<and> match_here (Item a ZeroOrMore l # rs) cs))"
| "match_here (Item a OneOrMore l # rs) [] = False"
| "match_here (Item a OneOrMore l # rs) (c # cs) =
     (atom_matches a c \<and> match_here (Item a ZeroOrMore l # rs) cs)"

text \<open>\<open>search items s\<close>: the items match at some position of \<open>s\<close>.\<close>

fun search :: "item list \<Rightarrow> string \<Rightarrow> bool" where
  "search rs [] = match_here rs []"
| "search rs (c # cs) = (match_here rs (c # cs) \<or> search rs cs)"

text \<open>\<open>Inl SyntaxError\<close>: the constructor \<^verbatim>\<open>RegExp\<close> throws.\<close>

definition RegExp_test :: "string \<Rightarrow> string \<Rightarrow> exn + bool" where
  "RegExp_test pattern content =
     (case parse_pattern None [] pattern of
        None \<Rightarrow> Inl SyntaxError
      | Some items \<Rightarrow> Inr (search items content))"

subsection \<open>Stage A: the prefilter (\<^verbatim>\<open>src/scanner.ts\<close>)\<close>

text \<open>\<^verbatim>\<open>str.replace(/[.*+?^${}()|[\]\\]/g, '\\$&')\<close>: a backslash before each listed character.\<close>

definition escapeRegex :: "string \<Rightarrow> string" where
  "escapeRegex str =
     concat (map (\<lambda>c. if c \<in> set [CHR ''.'', CHR ''*'', CHR ''+'', CHR ''?'', CHR ''^'', CHR ''$'',
                                   CHR ''{'', CHR ''}'', CHR ''('', CHR '')'', CHR ''|'', CHR ''['',
                                   CHR '']'', backslash]
                     then [backslash, c] else [c]) str)"

text \<open>The class \<^verbatim>\<open>['""]\<close> as the template literals spell it.\<close>

definition quote_class :: string where
  "quote_class = ''['' @ [single_quote, double_quote, double_quote] @ '']''"

text \<open>
  The five pattern strings built for one package name, in the order of the source.
\<close>

definition fastScan_patterns :: "string \<Rightarrow> string list" where
  "fastScan_patterns pkg =
     [''import'' @ [backslash] @ ''s+.*?'' @ [backslash] @ ''s+from'' @ [backslash] @ ''s+''
        @ quote_class @ escapeRegex pkg,
      ''import'' @ [backslash] @ ''s*'' @ [backslash] @ ''('' @ [backslash] @ ''s*''
        @ quote_class @ escapeRegex pkg,
      ''require'' @ [backslash] @ ''s*'' @ [backslash] @ ''('' @ [backslash] @ ''s*''
        @ quote_class @ escapeRegex pkg,
      ''export'' @ [backslash] @ ''s+.*?'' @ [backslash] @ ''s+from'' @ [backslash] @ ''s+''
        @ quote_class @ escapeRegex pkg,
      quote_class @ escapeRegex pkg @ quote_class]"

text \<open>
  The inner loop with its \<^verbatim>\<open>break\<close>: whether some pattern matches. All five \<^verbatim>\<open>RegExp\<close>
  objects are constructed before the first test, so an invalid pattern throws first.
\<close>

fun some_pattern_matches :: "(exn + bool) list \<Rightarrow> bool" where
  "some_pattern_matches [] = False"
| "some_pattern_matches (Inr True # rest) = True"
| "some_pattern_matches (_ # rest) = some_pattern_matches rest"

definition any_pattern_throws :: "(exn + bool) list \<Rightarrow> bool" where
  "any_pattern_throws results = list_ex (\<lambda>r. case r of Inl _ \<Rightarrow> True | Inr _ \<Rightarrow> False) results"

text \<open>\<open>found.add(pkg)\<close> on a \<^verbatim>\<open>Set\<close>, which keeps the order of first insertion.\<close>

definition Set_add :: "'a list \<Rightarrow> 'a \<Rightarrow> 'a list" where
  "Set_add found x = (if x \<in> set found then found else found @ [x])"

fun fastScan_loop :: "string \<Rightarrow> string list \<Rightarrow> string list \<Rightarrow> exn + string list" where
  "fastScan_loop content [] found = Inr found"
| "fastScan_loop content (pkg # rest) found =
     (let results = map (\<lambda>pattern. RegExp_test pattern content) (fastScan_patterns pkg)
      in if any_pattern_throws results then Inl SyntaxError
         else fastScan_loop content rest
                (if some_pattern_matches results then Set_add found pkg else found))"

definition fastScan :: "fs \<Rightarrow> string \<Rightarrow> string list \<Rightarrow> string list" where
  "fastScan fs filePath packageNames =
     (case files fs filePath of
        None \<Rightarrow> []
      | Some content \<Rightarrow>
          (case fastScan_loop content packageNames [] of
             Inl _ \<Rightarrow> []
           | Inr found \<Rightarrow> found))"

text \<open>
  The items that the five patterns denote, and what it means for them to occur in a text.
  \<open>lits n\<close> is the name \<open>n\<close> read as a sequence of literal characters.
\<close>

definition lits :: "string \<Rightarrow> item list" where
  "lits n = map (\<lambda>c. Item (AChar c) One False) n"

definition quote_item :: item where
  "quote_item = Item (AClass [single_quote, double_quote, double_quote]) One False"

definition space_item :: "quantifier \<Rightarrow> item" where
  "space_item q = Item ASpace q False"

definition from_items :: "string \<Rightarrow> string \<Rightarrow> item list" where
  "from_items kw pkg =
     lits kw @ [space_item OneOrMore, Item ADot ZeroOrMore True, space_item OneOrMore]
     @ lits ''from'' @ [space_item OneOrMore, quote_item] @ lits pkg"

definition call_items :: "string \<Rightarrow> string \<Rightarrow> item list" where
  "call_items kw pkg =
     lits kw @ [space_item ZeroOrMore, Item (AChar (CHR ''('')) One False, space_item ZeroOrMore,
                quote_item] @ lits pkg"

definition literal_items :: "string \<Rightarrow> item list" where
  "literal_items pkg = [quote_item] @ lits pkg @ [quote_item]"

definition is_quote :: "char \<Rightarrow> bool" where
  "is_quote c = (c = single_quote \<or> c = double_quote)"

definition quoted_literal_occurs :: "string \<Rightarrow> string \<Rightarrow> bool" where
  "quoted_literal_occurs pkg content =
     (\<exists>pre q1 q2 post. content = pre @ [q1] @ pkg @ [q2] @ post \<and> is_quote q1 \<and> is_quote q2)"

definition call_occurs :: "string \<Rightarrow> string \<Rightarrow> string \<Rightarrow> bool" where
  "call_occurs kw pkg content =
     (\<exists>pre w1 w2 q post.
        content = pre @ kw @ w1 @ ''('' @ w2 @ [q] @ pkg @ post \<and>
        list_all js_whitespace w1 \<and> list_all js_whitespace w2 \<and> is_quote q)"

definition from_occurs :: "string \<Rightarrow> string \<Rightarrow> string \<Rightarrow> bool" where
  "from_occurs kw pkg content =
     (\<exists>pre w1 mid w2 w3 q post.
        content = pre @ kw @ w1 @ mid @ w2 @ ''from'' @ w3 @ [q] @ pkg @ post \<and>
        w1 \<noteq> [] \<and> list_all js_whitespace w1 \<and>
        list_all (\<lambda>c. \<not> line_terminator c) mid \<and>
        w2 \<noteq> [] \<and> list_all js_whitespace w2 \<and>
        w3 \<noteq> [] \<and> list_all js_whitespace w3 \<and> is_quote q)"

text \<open>What Stage A looks for: one of the five forms occurs in the content.\<close>

definition possibly_referenced :: "string \<Rightarrow> string \<Rightarrow> bool" where
  "possibly_referenced content pkg =
     (from_occurs ''import'' pkg content \<or> call_occurs ''import'' pkg content \<or>
      call_occurs ''require'' pkg content \<or> from_occurs ''export'' pkg content \<or>
      quoted_literal_occurs pkg content)"

subsection \<open>Stage B: the syntax extractor (\<^verbatim>\<open>src/parser.ts\<close>)\<close>

text \<open>
  The tree that \<^verbatim>\<open>parseSync\<close> returns is walked as a plain JavaScript value. An object is
  the list of its properties, with distinct keys, in enumeration order. Numbers in the tree
  are integers (span offsets); for a numeric literal only whether it is zero matters.
\<close>

datatype jsval =
    JUndefined | JNull | JBool bool | JNum int | JStr string
  | JArr "jsval list" | JObj "(string \<times> jsval) list"

record ParsedImport =
  packageName :: string
  p_type :: EvidenceType
  p_line :: int
  isTypeOnly :: "bool option"

record swc_options =
  o_syntax :: string
  o_tsx :: bool
  o_jsx :: bool
  o_target :: string

text \<open>
  The parser of \<^verbatim>\<open>@swc/core\<close>, the JSON reader for the manifest and \<^verbatim>\<open>fast-glob\<close> are
  further functions of the platform. \<open>parseSync\<close> and \<open>JSON_parse\<close> give \<open>None\<close> when they
  throw. \<open>glob fs patterns cwd ignore\<close> is the answer of
  \<^verbatim>\<open>glob(patterns, {cwd, ignore, absolute: true, onlyFiles: true})\<close> on the file system
  \<open>fs\<close>: a list of paths, or \<open>None\<close> when the promise is rejected.
\<close>

record 'm platform = cache_platform +
  parseSync :: "string \<Rightarrow> swc_options \<Rightarrow> jsval option"
  JSON_parse :: "string \<Rightarrow> 'm option"
  glob :: "fs \<Rightarrow> string list \<Rightarrow> string \<Rightarrow> string list \<Rightarrow> string list option"

text \<open>
  A computation that mutates a state and may throw: the state is kept in both cases, as
  the arrays and maps that the source mutates in place are.
\<close>

datatype 's completion = Normal 's | Abrupt exn 's

fun truthy :: "jsval \<Rightarrow> bool" where
  "truthy JUndefined = False"
| "truthy JNull = False"
| "truthy (JBool b) = b"
| "truthy (JNum n) = (n \<noteq> 0)"
| "truthy (JStr s) = (s \<noteq> [])"
| "truthy (JArr xs) = True"
| "truthy (JObj kvs) = True"

text \<open>
  \<open>get_prop v k\<close> is \<^verbatim>\<open>v?.k\<close> for the property names that the extractor reads; none of them is
  a property of an array or of a primitive value.
\<close>

fun get_prop :: "jsval \<Rightarrow> string \<Rightarrow> jsval" where
  "get_prop (JObj kvs) k = (case map_of kvs k of None \<Rightarrow> JUndefined | Some v \<Rightarrow> v)"
| "get_prop _ k = JUndefined"

text \<open>\<^verbatim>\<open>v?.[0]\<close>.\<close>

fun index0 :: "jsval \<Rightarrow> jsval" where
  "index0 (JArr []) = JUndefined"
| "index0 (JArr (x # xs)) = x"
| "index0 (JStr []) = JUndefined"
| "index0 (JStr (c # cs)) = JStr [c]"
| "index0 (JObj kvs) = (case map_of kvs ''0'' of None \<Rightarrow> JUndefined | Some v \<Rightarrow> v)"
| "index0 _ = JUndefined"

text \<open>
  \<^verbatim>\<open>normalizePackageName(v)\<close> on a value of the tree: \<^verbatim>\<open>startsWith\<close> is not a function of
  anything but a string, so every other value throws a \<^verbatim>\<open>TypeError\<close>.
\<close>

fun normalize_value :: "jsval \<Rightarrow> exn + string" where
  "normalize_value (JStr s) = Inr (normalizePackageName s)"
| "normalize_value _ = Inl TypeError"

text \<open>
  \<^verbatim>\<open>node.span?.start || 0\<close>. The field \<^verbatim>\<open>line\<close> is declared a number, and the parser's spans
  are numbers; for a start that is not a number the model gives 0.
\<close>

definition span_start :: "jsval \<Rightarrow> int" where
  "span_start node = (case get_prop (get_prop node ''span'') ''start'' of JNum n \<Rightarrow> n | _ \<Rightarrow> 0)"

definition source_value :: "jsval \<Rightarrow> jsval" where
  "source_value node = get_prop (get_prop node ''source'') ''value''"

definition push_import ::
  "jsval \<Rightarrow> jsval \<Rightarrow> EvidenceType \<Rightarrow> bool option \<Rightarrow> ParsedImport list
     \<Rightarrow> ParsedImport list completion" where
  "push_import node v t typeOnly imports =
     (case normalize_value v of
        Inl e \<Rightarrow> Abrupt e imports
      | Inr name \<Rightarrow>
          Normal (imports @ [\<lparr>packageName = name, p_type = t, p_line = span_start node,
                               isTypeOnly = typeOnly\<rparr>]))"

text \<open>The four \<^verbatim>\<open>if\<close> blocks at the head of \<^verbatim>\<open>extractImportsFromAST\<close>, one after the other.\<close>

definition handle_import :: "jsval \<Rightarrow> ParsedImport list \<Rightarrow> ParsedImport list completion" where
  "handle_import node imports =
     (if get_prop node ''type'' = JStr ''ImportDeclaration'' \<and> truthy (source_value node)
      then push_import node (source_value node)
             (if get_prop node ''importKind'' = JStr ''type'' then ''type_import''
              else ''static_import'')
             (Some (get_prop node ''importKind'' = JStr ''type'')) imports
      else Normal imports)"

definition handle_export :: "jsval \<Rightarrow> ParsedImport list \<Rightarrow> ParsedImport list completion" where
  "handle_export node imports =
     (if get_prop node ''type'' = JStr ''ExportAllDeclaration'' \<or>
         get_prop node ''type'' = JStr ''ExportNamedDeclaration''
      then (if truthy (source_value node)
            then push_import node (source_value node) ''export_from'' None imports
            else Normal imports)
      else Normal imports)"

definition handle_dynamic :: "jsval \<Rightarrow> ParsedImport list \<Rightarrow> ParsedImport list completion" where
  "handle_dynamic node imports =
     (if get_prop node ''type'' = JStr ''ImportExpression'' \<and> truthy (source_value node)
      then push_import node (source_value node) ''dynamic_import'' None imports
      else Normal imports)"

definition require_argument :: "jsval \<Rightarrow> jsval" where
  "require_argument node = get_prop (get_prop (index0 (get_prop node ''arguments'')) ''expression'') ''value''"

definition handle_require :: "jsval \<Rightarrow> ParsedImport list \<Rightarrow> ParsedImport list completion" where
  "handle_require node imports =
     (if get_prop node ''type'' = JStr ''CallExpression'' \<and>
         get_prop (get_prop node ''callee'') ''type'' = JStr ''Identifier'' \<and>
         get_prop (get_prop node ''callee'') ''value'' = JStr ''require'' \<and>
         truthy (require_argument node)
      then push_import node (require_argument node) ''require'' None imports
      else Normal imports)"

definition and_then :: "'s completion \<Rightarrow> ('s \<Rightarrow> 's completion) \<Rightarrow> 's completion" where
  "and_then c f = (case c of Normal s \<Rightarrow> f s | Abrupt e s \<Rightarrow> Abrupt e s)"

definition own_imports :: "jsval \<Rightarrow> ParsedImport list \<Rightarrow> ParsedImport list completion" where
  "own_imports node imports =
     and_then (and_then (and_then (handle_import node imports) (handle_export node))
                 (handle_dynamic node)) (handle_require node)"

text \<open>
  The walk. A value that is falsy or not an object returns at once. An array has none of
  the properties that the four blocks read, so only its elements are visited; the
  \<^verbatim>\<open>for ... in\<close> loop runs over the properties of an object (but \<^verbatim>\<open>span\<close> and \<^verbatim>\<open>parent\<close>) or
  over the elements of an array, and its body is \<open>visit_value\<close>.
\<close>

fun extractImportsFromAST :: "jsval \<Rightarrow> ParsedImport list \<Rightarrow> ParsedImport list completion"
  and traverse_properties ::
    "(string \<times> jsval) list \<Rightarrow> ParsedImport list \<Rightarrow> ParsedImport list completion"
  and traverse_elements :: "jsval list \<Rightarrow> ParsedImport list \<Rightarrow> ParsedImport list completion"
  and visit_value :: "jsval \<Rightarrow> ParsedImport list \<Rightarrow> ParsedImport list completion"
  and forEach_child :: "jsval list \<Rightarrow> ParsedImport list \<Rightarrow> ParsedImport list completion"
where
  "extractImportsFromAST (JObj kvs) imports =
     (case own_imports (JObj kvs) imports of
        Abrupt e i \<Rightarrow> Abrupt e i
      | Normal i \<Rightarrow> traverse_properties kvs i)"
| "extractImportsFromAST (JArr xs) imports = traverse_elements xs imports"
| "extractImportsFromAST JUndefined imports = Normal imports"
| "extractImportsFromAST JNull imports = Normal imports"
| "extractImportsFromAST (JBool b) imports = Normal imports"
| "extractImportsFromAST (JNum n) imports = Normal imports"
| "extractImportsFromAST (JStr s) imports = Normal imports"
| "traverse_properties [] imports = Normal imports"
| "traverse_properties ((key, v) # rest) imports =
     (if key = ''span'' \<or> key = ''parent'' then traverse_properties rest imports
      else (case visit_value v imports of
              Abrupt e i \<Rightarrow> Abrupt e i
            | Normal i \<Rightarrow> traverse_properties rest i))"
| "traverse_elements [] imports = Normal imports"
| "traverse_elements (v # rest) imports =
     (case visit_value v imports of
        Abrupt e i \<Rightarrow> Abrupt e i
      | Normal i \<Rightarrow> traverse_elements rest i)"
| "visit_value (JArr children) imports = forEach_child children imports"
| "visit_value (JObj kvs) imports = extractImportsFromAST (JObj kvs) imports"
| "visit_value JUndefined imports = Normal imports"
| "visit_value JNull imports = Normal imports"
| "visit_value (JBool b) imports = Normal imports"
| "visit_value (JNum n) imports = Normal imports"
| "visit_value (JStr s) imports = Normal imports"
| "forEach_child [] imports = Normal imports"
| "forEach_child (child # rest) imports =
     (case extractImportsFromAST child imports of
        Abrupt e i \<Rightarrow> Abrupt e i
      | Normal i \<Rightarrow> forEach_child rest i)"

definition endsWith :: "string \<Rightarrow> string \<Rightarrow> bool" where
  "endsWith s suffix = (drop (length s - length suffix) s = suffix \<and> length suffix \<le> length s)"

text \<open>
  \<^verbatim>\<open>parseFile\<close>: the \<^verbatim>\<open>catch\<close> block is empty, so whatever was thrown (by the parser, or by
  the walk), the function returns the array as it is at that moment.
\<close>

definition parseFile :: "('m, 'a) platform_scheme \<Rightarrow> string \<Rightarrow> string \<Rightarrow> ParsedImport list" where
  "parseFile pf content filePath =
     (case parseSync pf content
             \<lparr>o_syntax = (if endsWith filePath ''.ts'' \<or> endsWith filePath ''.tsx''
                           then ''typescript'' else ''ecmascript''),
              o_tsx = endsWith filePath ''.tsx'',
              o_jsx = endsWith filePath ''.jsx'',
              o_target = ''es2022''\<rparr> of
        None \<Rightarrow> []
      | Some ast \<Rightarrow>
          (case extractImportsFromAST ast [] of
             Normal imports \<Rightarrow> imports
           | Abrupt e imports \<Rightarrow> imports))"

subsection \<open>Manifest (\<^verbatim>\<open>src/package.ts\<close>)\<close>

text \<open>
  A section of the manifest is the list of its entries in the order of \<^verbatim>\<open>Object.keys\<close>;
  \<open>None\<close> is a section that is absent. The source casts the parsed JSON to \<^verbatim>\<open>PackageJson\<close>
  without checking it; a manifest that is not an object, or whose sections are not objects
  of strings, is not considered.
\<close>

record PackageJson =
  pj_dependencies :: "(string \<times> string) list option"
  pj_devDependencies :: "(string \<times> string) list option"
  pj_optionalDependencies :: "(string \<times> string) list option"
  pj_peerDependencies :: "(string \<times> string) list option"

definition DEPENDENCY_SECTIONS :: "DependencySection list" where
  "DEPENDENCY_SECTIONS = [dependencies, devDependencies, optionalDependencies, peerDependencies]"

fun section_of :: "PackageJson \<Rightarrow> DependencySection \<Rightarrow> (string \<times> string) list option" where
  "section_of pkg dependencies = pj_dependencies pkg"
| "section_of pkg devDependencies = pj_devDependencies pkg"
| "section_of pkg optionalDependencies = pj_optionalDependencies pkg"
| "section_of pkg peerDependencies = pj_peerDependencies pkg"

definition readPackageJson ::
  "(PackageJson, 'a) platform_scheme \<Rightarrow> fs \<Rightarrow> string \<Rightarrow> exn + PackageJson" where
  "readPackageJson pf fs path =
     (case files fs path of
        None \<Rightarrow> Inl IOError
      | Some content \<Rightarrow>
          (case JSON_parse pf content of
             None \<Rightarrow> Inl SyntaxError
           | Some pkg \<Rightarrow> Inr pkg))"

definition getAllDependencyNames :: "PackageJson \<Rightarrow> string list" where
  "getAllDependencyNames pkg =
     fold (\<lambda>section names.
             case section_of pkg section of
               None \<Rightarrow> names
             | Some deps \<Rightarrow> fold (\<lambda>name names. Set_add names name) (map fst deps) names)
          DEPENDENCY_SECTIONS []"

text \<open>
  \<^verbatim>\<open>pkg.dependencies?.[name]\<close> is truthy: the section has an entry of that name with a
  version that is not empty, or it has no such entry and the name is that of an inherited
  member.
\<close>

definition declares :: "(string \<times> string) list option \<Rightarrow> string \<Rightarrow> bool" where
  "declares deps name =
     (case deps of
        None \<Rightarrow> False
      | Some entries \<Rightarrow>
          (case read_property entries name of
             Own v \<Rightarrow> v \<noteq> []
           | Inherited \<Rightarrow> True
           | Undefined \<Rightarrow> False))"

definition getDependencySection :: "PackageJson \<Rightarrow> string \<Rightarrow> DependencySection option" where
  "getDependencySection pkg name =
     (if declares (pj_dependencies pkg) name then Some dependencies
      else if declares (pj_devDependencies pkg) name then Some devDependencies
      else if declares (pj_optionalDependencies pkg) name then Some optionalDependencies
      else if declares (pj_peerDependencies pkg) name then Some peerDependencies
      else None)"

subsection \<open>Usage side and notes (\<^verbatim>\<open>src/confidence.ts\<close>)\<close>

definition determineUsageSide :: "(string \<rightharpoonup> bool) \<Rightarrow> UsageSide" where
  "determineUsageSide results =
     (let hasClient = (case results ''client'' of None \<Rightarrow> False | Some b \<Rightarrow> b);
          hasServer = (case results ''server'' of None \<Rightarrow> False | Some b \<Rightarrow> b)
      in if hasClient \<and> hasServer then both
         else if hasClient then client
         else if hasServer then server
         else unknown)"

definition generateNotes ::
  "DependencyStatus \<Rightarrow> EvidenceEntry list \<Rightarrow> DependencySection \<Rightarrow> string list" where
  "generateNotes status evidence section =
     (if status = uncertain then
        (if filter (\<lambda>e. e_type e = ''config_reference'') evidence \<noteq> []
         then [''Referenced in config files but not verified as imported''] else [])
        @ (if filter (\<lambda>e. e_type e = ''string_reference'') evidence \<noteq> []
           then [''Only found as string literal references''] else [])
        @ (if filter (\<lambda>e. e_type e = ''plugin_reference'') evidence \<noteq> []
           then [''Possibly used as plugin - verify manually''] else [])
        @ (if evidence = [] then [''No usage evidence found''] else [])
      else [])
     @ (if section = peerDependencies
        then [''Peer dependency - do not remove without checking dependents''] else [])"

subsection \<open>Orchestration (\<^verbatim>\<open>src/analyzer.ts\<close>)\<close>

record PackageResult =
  r_name :: string
  r_section :: DependencySection
  r_status :: DependencyStatus
  r_confidence :: "real option"
  r_side :: UsageSide
  r_evidence :: "EvidenceEntry list"
  r_notes :: "string list"

record Totals =
  t_used :: nat
  t_unused :: nat
  t_uncertain :: nat

record ScanOptions =
  opt_cwd :: string
  opt_include :: "string list option"
  opt_exclude :: "string list option"
  opt_noCache :: "bool option"
  opt_cacheDir :: "string option"
  opt_minConfidenceUnused :: real
  opt_minConfidenceUsed :: real
  opt_workspace :: "string option"

record ScanResult =
  s_version :: string
  s_timestamp :: string
  s_repoRoot :: string
  s_workspace :: "string option"
  s_packages :: "PackageResult list"
  s_totals :: Totals

text \<open>
  The two maps of \<^verbatim>\<open>runScan\<close> and the file system, threaded through the processing of the
  files.
\<close>

record scan_state =
  evidenceMap :: "string \<rightharpoonup> EvidenceEntry list"
  sideMap :: "string \<rightharpoonup> (string \<rightharpoonup> bool)"
  disk :: fs

definition VERSION :: string where
  "VERSION = ''1.0.0''"

definition addEvidence ::
  "(string \<rightharpoonup> EvidenceEntry list) \<Rightarrow> string \<Rightarrow> EvidenceEntry \<Rightarrow> (string \<rightharpoonup> EvidenceEntry list)"
  where
  "addEvidence m pkg evidence =
     (let existing = (case m pkg of None \<Rightarrow> [] | Some es \<Rightarrow> es)
      in m(pkg \<mapsto> existing @ [evidence]))"

text \<open>The flag is optional; \<open>None\<close> and \<open>Some False\<close> are both falsy.\<close>

definition updateSideMap ::
  "(string \<rightharpoonup> (string \<rightharpoonup> bool)) \<Rightarrow> string \<Rightarrow> bool option \<Rightarrow> (string \<rightharpoonup> (string \<rightharpoonup> bool))"
  where
  "updateSideMap m pkg isClient =
     (let sides = (case m pkg of None \<Rightarrow> Map.empty | Some s \<Rightarrow> s)
      in m(pkg \<mapsto> (if isClient = Some True then sides(''client'' \<mapsto> True)
                     else sides(''server'' \<mapsto> True))))"

definition extractSnippet :: "string \<Rightarrow> int \<Rightarrow> string" where
  "extractSnippet content line =
     (let lines = split (CHR 0x0A) content;
          index = line - 1
      in if index \<ge> 0 \<and> index < int (length lines)
         then take 100 (trim (lines ! nat index))
         else [])"

text \<open>\<^verbatim>\<open>getFileStats\<close>: of the two fields of the result only \<^verbatim>\<open>mtime\<close> is ever read.\<close>

definition getFileStats :: "fs \<Rightarrow> string \<Rightarrow> real option" where
  "getFileStats fs filePath = mtimes fs filePath"

text \<open>The body of the loop over \<^verbatim>\<open>cached.imports\<close> on a cache hit, run over a list of names.\<close>

definition replay_names :: "string \<Rightarrow> bool option \<Rightarrow> string list \<Rightarrow> scan_state \<Rightarrow> scan_state" where
  "replay_names filePath isClient names st =
     fold (\<lambda>pkg st.
             st\<lparr>evidenceMap :=
                   addEvidence (evidenceMap st) pkg
                     \<lparr>e_file = filePath, e_line = None, e_type = ''static_import'',
                      e_snippet = Some ''(cached)''\<rparr>,
                 sideMap := updateSideMap (sideMap st) pkg isClient\<rparr>)
          names st"

text \<open>
  The loop stands outside the \<^verbatim>\<open>try\<close> block of \<^verbatim>\<open>processFile\<close>: when \<^verbatim>\<open>cached.imports\<close>
  cannot be iterated, \<^verbatim>\<open>for ... of\<close> throws a \<^verbatim>\<open>TypeError\<close> before anything is recorded,
  and \<^verbatim>\<open>processFile\<close> throws it on.
\<close>

definition replay_cached :: "string \<Rightarrow> CacheEntry \<Rightarrow> scan_state \<Rightarrow> scan_state completion" where
  "replay_cached filePath cached st =
     (case c_imports cached of
        None \<Rightarrow> Abrupt TypeError st
      | Some names \<Rightarrow> Normal (replay_names filePath (c_isClient cached) names st))"

text \<open>
  The loop over the parsed imports: the state, and the set \<^verbatim>\<open>foundPackages\<close> in insertion
  order.
\<close>

definition record_import ::
  "string \<Rightarrow> string list \<Rightarrow> string \<Rightarrow> bool \<Rightarrow> ParsedImport \<Rightarrow> scan_state \<times> string list
     \<Rightarrow> scan_state \<times> string list" where
  "record_import filePath packageNames content isClient imp acc =
     (case acc of (st, foundPackages) \<Rightarrow>
        if packageName imp \<in> set packageNames then
          (st\<lparr>evidenceMap :=
                 addEvidence (evidenceMap st) (packageName imp)
                   \<lparr>e_file = filePath, e_line = Some (p_line imp), e_type = p_type imp,
                    e_snippet = Some (extractSnippet content (p_line imp))\<rparr>,
               sideMap := updateSideMap (sideMap st) (packageName imp) (Some isClient)\<rparr>,
           Set_add foundPackages (packageName imp))
        else (st, foundPackages))"

text \<open>
  The body of the \<^verbatim>\<open>try\<close> block of Stage B. The only call in it that can throw is
  \<^verbatim>\<open>readFile\<close>: \<^verbatim>\<open>parseFile\<close> catches everything itself and \<^verbatim>\<open>cache.set\<close> swallows its
  failures.
\<close>

definition stageB_try ::
  "('m, 'a) platform_scheme \<Rightarrow> CacheManager \<Rightarrow> string \<Rightarrow> string list \<Rightarrow> real option
     \<Rightarrow> scan_state \<Rightarrow> scan_state completion" where
  "stageB_try pf cache filePath packageNames stats st =
     (case files (disk st) filePath of
        None \<Rightarrow> Abrupt IOError st
      | Some content \<Rightarrow>
          (let imports = parseFile pf content filePath;
               isClient = detectUseClient content;
               (st', foundPackages) =
                  fold (record_import filePath packageNames content isClient) imports (st, [])
           in case stats of
                None \<Rightarrow> Normal st'
              | Some mtime \<Rightarrow>
                  Normal (st'\<lparr>disk :=
                            CacheManager_set pf cache (disk st') filePath
                              \<lparr>c_hash = createHash pf content, c_mtime = mtime,
                               c_imports = Some foundPackages,
                               c_isClient = Some isClient\<rparr>\<rparr>)))"

text \<open>The \<^verbatim>\<open>catch\<close> block of Stage B.\<close>

definition string_scan_fallback :: "string \<Rightarrow> string list \<Rightarrow> scan_state \<Rightarrow> scan_state" where
  "string_scan_fallback filePath candidates st =
     fold (\<lambda>pkg st.
             st\<lparr>evidenceMap :=
                   addEvidence (evidenceMap st) pkg
                     \<lparr>e_file = filePath, e_line = None, e_type = ''string_reference'',
                      e_snippet = Some ''(detected via string scan)''\<rparr>\<rparr>)
          candidates st"

definition processFile ::
  "('m, 'a) platform_scheme \<Rightarrow> CacheManager \<Rightarrow> string \<Rightarrow> string list \<Rightarrow> scan_state
     \<Rightarrow> scan_state completion" where
  "processFile pf cache filePath packageNames st =
     (case CacheManager_get pf cache (disk st) filePath of
        Inl e \<Rightarrow> Abrupt e st
      | Inr cached \<Rightarrow>
          (let stats = getFileStats (disk st) filePath;
               hit = (case cached of
                        None \<Rightarrow> None
                      | Some c \<Rightarrow>
                          (case stats of
                             None \<Rightarrow> None
                           | Some s \<Rightarrow> if c_mtime c = s then Some c else None))
           in case hit of
                Some c \<Rightarrow> replay_cached filePath c st
              | None \<Rightarrow>
                  (let candidates = fastScan (disk st) filePath packageNames
                   in if candidates = [] then Normal st
                      else (case stageB_try pf cache filePath packageNames stats st of
                              Normal st' \<Rightarrow> Normal st'
                            | Abrupt e st' \<Rightarrow>
                                Normal (string_scan_fallback filePath candidates st')))))"

text \<open>The loop over the files; a throw of \<^verbatim>\<open>processFile\<close> ends it.\<close>

fun processFiles ::
  "('m, 'a) platform_scheme \<Rightarrow> CacheManager \<Rightarrow> string list \<Rightarrow> string list \<Rightarrow> scan_state
     \<Rightarrow> scan_state completion" where
  "processFiles pf cache [] packageNames st = Normal st"
| "processFiles pf cache (filePath # rest) packageNames st =
     (case processFile pf cache filePath packageNames st of
        Abrupt e st' \<Rightarrow> Abrupt e st'
      | Normal st' \<Rightarrow> processFiles pf cache rest packageNames st')"

subsubsection \<open>File discovery (\<^verbatim>\<open>src/scanner.ts\<close>)\<close>

definition DEFAULT_EXTENSIONS :: "string list" where
  "DEFAULT_EXTENSIONS = [''.js'', ''.jsx'', ''.ts'', ''.tsx'', ''.mjs'', ''.cjs'']"

definition DEFAULT_IGNORE :: "string list" where
  "DEFAULT_IGNORE =
     [''**/node_modules/**'', ''**/.next/**'', ''**/dist/**'', ''**/build/**'', ''**/out/**'',
      ''**/coverage/**'', ''**/.turbo/**'', ''**/.cache/**'', ''**/.git/**'']"

definition NEXTJS_DIRECTORIES :: "string list" where
  "NEXTJS_DIRECTORIES =
     [''app'', ''src/app'', ''pages'', ''src/pages'', ''components'', ''src/components'',
      ''lib'', ''src/lib'', ''utils'', ''src/utils'', ''hooks'', ''src/hooks'',
      ''contexts'', ''src/contexts'', ''services'', ''src/services'', ''api'', ''src/api'']"

definition CONFIG_FILES :: "string list" where
  "CONFIG_FILES =
     [''next.config.{js,mjs,cjs,ts}'', ''tailwind.config.*'', ''postcss.config.*'',
      ''eslint.config.*'', ''.eslintrc.*'', ''prettier.config.*'', ''jest.config.*'',
      ''vitest.config.*'', ''playwright.config.*'', ''cypress.config.*'', ''babel.config.*'',
      ''tsconfig.json'']"

definition NEXTJS_FILES :: "string list" where
  "NEXTJS_FILES = [''middleware.{ts,js}'', ''instrumentation.{ts,js}'']"

definition findFiles :: "('m, 'a) platform_scheme \<Rightarrow> ScanOptions \<Rightarrow> fs \<Rightarrow> exn + string list"
  where
  "findFiles pf options fs =
     (let patterns =
            concat (map (\<lambda>dir. map (\<lambda>ext. dir @ ''/**/*'' @ ext) DEFAULT_EXTENSIONS)
                      NEXTJS_DIRECTORIES)
            @ CONFIG_FILES @ NEXTJS_FILES
            @ (case opt_include options of None \<Rightarrow> [] | Some inc \<Rightarrow> inc);
          ignore = DEFAULT_IGNORE @ (case opt_exclude options of None \<Rightarrow> [] | Some exc \<Rightarrow> exc)
      in case glob pf fs patterns (opt_cwd options) ignore of
           None \<Rightarrow> Inl IOError
         | Some found \<Rightarrow> Inr found)"

subsubsection \<open>The scan\<close>

definition build_result ::
  "ScanOptions \<Rightarrow> PackageJson \<Rightarrow> scan_state \<Rightarrow> string \<Rightarrow> PackageResult" where
  "build_result options packageJson st depName =
     (let evidence = (case evidenceMap st depName of None \<Rightarrow> [] | Some es \<Rightarrow> es);
          sideResults = (case sideMap st depName of None \<Rightarrow> Map.empty | Some s \<Rightarrow> s);
          confidence = calculateConfidence evidence;
          status = (case confidence of
                      None \<Rightarrow> uncertain
                    | Some c \<Rightarrow> classifyDependency c (opt_minConfidenceUnused options)
                                 (opt_minConfidenceUsed options));
          section = (case getDependencySection packageJson depName of
                       None \<Rightarrow> dependencies
                     | Some s \<Rightarrow> s)
      in \<lparr>r_name = depName, r_section = section, r_status = status, r_confidence = confidence,
          r_side = determineUsageSide sideResults, r_evidence = evidence,
          r_notes = generateNotes status evidence section\<rparr>)"

definition count_status :: "DependencyStatus \<Rightarrow> PackageResult list \<Rightarrow> nat" where
  "count_status s packages = length (filter (\<lambda>p. r_status p = s) packages)"

text \<open>
  \<^verbatim>\<open>runScan\<close>. \<open>now\<close> is the value of \<^verbatim>\<open>new Date().toISOString()\<close>. The result comes with
  the file system as the scan leaves it. \<open>Inl\<close>: the promise is rejected, because the
  manifest cannot be read, because \<^verbatim>\<open>glob\<close> fails, or because \<^verbatim>\<open>processFile\<close> throws. The
  two messages that the option \<^verbatim>\<open>verbose\<close> prints are left out.
\<close>

definition runScan ::
  "(PackageJson, 'a) platform_scheme \<Rightarrow> string \<Rightarrow> ScanOptions \<Rightarrow> fs \<Rightarrow> exn + ScanResult \<times> fs"
  where
  "runScan pf now options fs =
     (let cache = new_CacheManager pf
                    \<lparr>o_cacheDir = (case opt_cacheDir options of
                                     None \<Rightarrow> opt_cwd options
                                   | Some d \<Rightarrow> if d = [] then opt_cwd options else d),
                     o_enabled = (opt_noCache options \<noteq> Some True)\<rparr>;
          packagePath = path_join pf (opt_cwd options) ''package.json''
      in case readPackageJson pf fs packagePath of
           Inl e \<Rightarrow> Inl e
         | Inr packageJson \<Rightarrow>
             (let allDeps = getAllDependencyNames packageJson
              in case findFiles pf options fs of
                   Inl e \<Rightarrow> Inl e
                 | Inr found \<Rightarrow>
                     (case processFiles pf cache found allDeps
                             \<lparr>evidenceMap = Map.empty, sideMap = Map.empty, disk = fs\<rparr> of
                        Abrupt e st \<Rightarrow> Inl e
                      | Normal st \<Rightarrow>
                          (let packages = map (build_result options packageJson st) allDeps;
                               totals = \<lparr>t_used = count_status used packages,
                                         t_unused = count_status unused packages,
                                         t_uncertain = count_status uncertain packages\<rparr>
                           in Inr (\<lparr>s_version = VERSION, s_timestamp = now,
                                    s_repoRoot = opt_cwd options,
                                    s_workspace = opt_workspace options,
                                    s_packages = packages, s_totals = totals\<rparr>,
                                   disk st)))))"

text \<open>The names that the manifest declares, over its four sections.\<close>

definition declared_names :: "PackageJson \<Rightarrow> string set" where
  "declared_names pkg =
     (\<Union>section \<in> set DEPENDENCY_SECTIONS.
        case section_of pkg section of None \<Rightarrow> {} | Some deps \<Rightarrow> fst ` set deps)"

text \<open>The three parts of \<^verbatim>\<open>runScan\<close>, named: its cache manager, the path of the manifest, the result record.\<close>

definition scan_result :: "ScanOptions \<Rightarrow> string \<Rightarrow> PackageJson \<Rightarrow> scan_state \<Rightarrow> ScanResult" where
  "scan_result options now packageJson st =
     (let packages = map (build_result options packageJson st) (getAllDependencyNames packageJson)
      in \<lparr>s_version = VERSION, s_timestamp = now, s_repoRoot = opt_cwd options,
          s_workspace = opt_workspace options, s_packages = packages,
          s_totals = \<lparr>t_used = count_status used packages,
                      t_unused = count_status unused packages,
                      t_uncertain = count_status uncertain packages\<rparr>\<rparr>)"

definition scan_cache :: "'a cache_platform_scheme \<Rightarrow> ScanOptions \<Rightarrow> CacheManager" where
  "scan_cache pf options =
     new_CacheManager pf
       \<lparr>o_cacheDir = (case opt_cacheDir options of
                        None \<Rightarrow> opt_cwd options
                      | Some d \<Rightarrow> if d = [] then opt_cwd options else d),
        o_enabled = (opt_noCache options \<noteq> Some True)\<rparr>"

definition manifest_path :: "'a cache_platform_scheme \<Rightarrow> ScanOptions \<Rightarrow> string" where
  "manifest_path pf options = path_join pf (opt_cwd options) ''package.json''"

subsection \<open>A project whose only source file does not parse\<close>

text \<open>
  The manifest declares \<^verbatim>\<open>some-pkg\<close>. The one source file mentions it in a string literal
  and is not valid JavaScript, so \<^verbatim>\<open>parseSync\<close> throws. The cache is enabled and empty, and
  the thresholds are the defaults 0.3 and 0.7.
\<close>

definition ex_manifest_text :: string where
  \<open>ex_manifest_text = ''{"dependencies": {"some-pkg": "^1.0.0"}}''\<close>

definition ex_manifest :: PackageJson where
  "ex_manifest =
     \<lparr>pj_dependencies = Some [(''some-pkg'', ''^1.0.0'')], pj_devDependencies = None,
      pj_optionalDependencies = None, pj_peerDependencies = None\<rparr>"

definition ex_source_text :: string where
  \<open>ex_source_text = ''const x = "some-pkg"; this is not valid javascript {{{''\<close>

definition ex_platform :: "PackageJson platform" where
  "ex_platform =
     \<lparr>sha256 = (\<lambda>s. ''00112233445566778899''),
      path_join = (\<lambda>a b. a @ ''/'' @ b),
      parseSync = (\<lambda>content options. None),
      JSON_parse = (\<lambda>s. if s = ex_manifest_text then Some ex_manifest else None),
      glob = (\<lambda>fs patterns cwd ignore. Some [''/repo/app/page.js''])\<rparr>"

definition ex_fs :: fs where
  "ex_fs =
     \<lparr>files = [''/repo/package.json'' \<mapsto> ex_manifest_text,
               ''/repo/app/page.js'' \<mapsto> ex_source_text],
      mtimes = [''/repo/app/page.js'' \<mapsto> 1700],
      cache_files = Map.empty,
      write_ok = (\<lambda>p. True)\<rparr>"

definition ex_options :: ScanOptions where
  "ex_options =
     \<lparr>opt_cwd = ''/repo'', opt_include = None, opt_exclude = None, opt_noCache = None,
      opt_cacheDir = None, opt_minConfidenceUnused = 3/10, opt_minConfidenceUsed = 7/10,
      opt_workspace = None\<rparr>"

subsection \<open>A project with a type import and a require call\<close>

text \<open>
  The manifest declares \<^verbatim>\<open>react\<close> and \<^verbatim>\<open>lodash\<close> as dependencies, \<^verbatim>\<open>lodash\<close> again and
  \<^verbatim>\<open>typescript\<close> as development dependencies. The one source file imports a type from
  \<^verbatim>\<open>react\<close> and requires \<^verbatim>\<open>lodash/fp\<close>. \<open>ex2_ast\<close> is the tree of \<^verbatim>\<open>@swc/core\<close> for it: a
  type import is an \<^verbatim>\<open>ImportDeclaration\<close> with \<^verbatim>\<open>typeOnly\<close> set, and the \<^verbatim>\<open>start\<close> of a span
  is the offset of the node's first character, counted from 1 in the first text that the
  process parses. Of the leaf properties that differ between versions of the parser (none
  of which the extractor reads) the tree lists those of one version.
\<close>

definition ex2_manifest_text :: string where
  \<open>ex2_manifest_text = ''{"dependencies": {"react": "^18.0.0", "lodash": "^4.17.0"}, "devDependencies": {"lodash": "^4.17.0", "typescript": "^5.0.0"}}''\<close>

definition ex2_manifest :: PackageJson where
  "ex2_manifest =
     \<lparr>pj_dependencies = Some [(''react'', ''^18.0.0''), (''lodash'', ''^4.17.0'')],
      pj_devDependencies = Some [(''lodash'', ''^4.17.0''), (''typescript'', ''^5.0.0'')],
      pj_optionalDependencies = None, pj_peerDependencies = None\<rparr>"

definition ex2_source_text :: string where
  "ex2_source_text =
     ''import type { FC } from 'react';'' @ [CHR 0x0A] @ ''const fp = require('lodash/fp');''"

text \<open>The property \<^verbatim>\<open>span\<close> of a node that runs from offset \<open>a\<close> to offset \<open>b\<close>.\<close>

definition span_of :: "int \<Rightarrow> int \<Rightarrow> string \<times> jsval" where
  "span_of a b = (''span'', JObj [(''start'', JNum a), (''end'', JNum b), (''ctxt'', JNum 0)])"

definition ex2_ast :: jsval where
  "ex2_ast =
     JObj [(''type'', JStr ''Module''),
           span_of 1 66,
           (''body'', JArr [
              JObj [(''type'', JStr ''ImportDeclaration''),
                    span_of 1 33,
                    (''specifiers'', JArr [
                       JObj [(''type'', JStr ''ImportSpecifier''),
                             span_of 15 17,
                             (''local'', JObj [(''type'', JStr ''Identifier''), span_of 15 17,
                                              (''value'', JStr ''FC''),
                                              (''optional'', JBool False)]),
                             (''imported'', JNull),
                             (''isTypeOnly'', JBool False)]]),
                    (''source'', JObj [(''type'', JStr ''StringLiteral''), span_of 25 32,
                                      (''value'', JStr ''react''),
                                      (''raw'', JStr (CHR 0x27 # ''react'' @ [CHR 0x27]))]),
                    (''typeOnly'', JBool True),
                    (''with'', JNull)],
              JObj [(''type'', JStr ''VariableDeclaration''),
                    span_of 34 66,
                    (''kind'', JStr ''const''),
                    (''declare'', JBool False),
                    (''declarations'', JArr [
                       JObj [(''type'', JStr ''VariableDeclarator''),
                             span_of 40 65,
                             (''id'', JObj [(''type'', JStr ''Identifier''), span_of 40 42,
                                           (''value'', JStr ''fp''),
                                           (''optional'', JBool False),
                                           (''typeAnnotation'', JNull)]),
                             (''init'',
                              JObj [(''type'', JStr ''CallExpression''),
                                    span_of 45 65,
                                    (''callee'', JObj [(''type'', JStr ''Identifier''),
                                                      span_of 45 52,
                                                      (''value'', JStr ''require''),
                                                      (''optional'', JBool False)]),
                                    (''arguments'', JArr [
                                       JObj [(''spread'', JNull),
                                             (''expression'',
                                              JObj [(''type'', JStr ''StringLiteral''),
                                                    span_of 53 64,
                                                    (''value'', JStr ''lodash/fp''),
                                                    (''raw'', JStr (CHR 0x27 # ''lodash/fp''
                                                                      @ [CHR 0x27]))])]]),
                                    (''typeArguments'', JNull)]),
                             (''definite'', JBool False)]])]]),
           (''interpreter'', JNull)]"

definition ex2_platform :: "PackageJson platform" where
  "ex2_platform =
     \<lparr>sha256 = (\<lambda>s. ''00112233445566778899''),
      path_join = (\<lambda>a b. a @ ''/'' @ b),
      parseSync = (\<lambda>content options. if content = ex2_source_text then Some ex2_ast else None),
      JSON_parse = (\<lambda>s. if s = ex2_manifest_text then Some ex2_manifest else None),
      glob = (\<lambda>fs patterns cwd ignore. Some [''/repo/app/page.tsx''])\<rparr>"

definition ex2_fs :: fs where
  "ex2_fs =
     \<lparr>files = [''/repo/package.json'' \<mapsto> ex2_manifest_text,
               ''/repo/app/page.tsx'' \<mapsto> ex2_source_text],
      mtimes = [''/repo/app/page.tsx'' \<mapsto> 1700],
      cache_files = Map.empty,
      write_ok = (\<lambda>p. True)\<rparr>"

text \<open>
  A value in the cache that \<^verbatim>\<open>set\<close> did not write: the text \<^verbatim>\<open>{"hash": "", "mtime": 1700}\<close>.
\<close>

definition ex_misshapen :: CacheEntry where
  "ex_misshapen = \<lparr>c_hash = [], c_mtime = 1700, c_imports = None, c_isClient = None\<rparr>"

text \<open>The packages of a scan's result, and the file system that the scan leaves.\<close>

definition scan_packages :: "exn + ScanResult \<times> fs \<Rightarrow> PackageResult list" where
  "scan_packages r = (case r of Inl e \<Rightarrow> [] | Inr (result, fs') \<Rightarrow> s_packages result)"

definition scan_disk :: "fs \<Rightarrow> exn + ScanResult \<times> fs \<Rightarrow> fs" where
  "scan_disk fs r = (case r of Inl e \<Rightarrow> fs | Inr (result, fs') \<Rightarrow> fs')"

subsection \<open>Trees of \<^verbatim>\<open>@swc/core\<close>\<close>

text \<open>
  The parser marks a type-only import by the property \<^verbatim>\<open>typeOnly\<close> and represents a
  dynamic import as a \<^verbatim>\<open>CallExpression\<close> whose callee has the type \<^verbatim>\<open>Import\<close>: no node of
  its trees has a property \<^verbatim>\<open>importKind\<close>, and none has the type \<^verbatim>\<open>ImportExpression\<close>.
\<close>

fun swc_node :: "jsval \<Rightarrow> bool"
  and swc_properties :: "(string \<times> jsval) list \<Rightarrow> bool"
  and swc_elements :: "jsval list \<Rightarrow> bool"
where
  "swc_node (JObj kvs) =
     (map_of kvs ''importKind'' = None \<and> map_of kvs ''type'' \<noteq> Some (JStr ''ImportExpression'') \<and>
      swc_properties kvs)"
| "swc_node (JArr xs) = swc_elements xs"
| "swc_node JUndefined = True"
| "swc_node JNull = True"
| "swc_node (JBool b) = True"
| "swc_node (JNum n) = True"
| "swc_node (JStr s) = True"
| "swc_properties [] = True"
| "swc_properties ((key, v) # rest) = (swc_node v \<and> swc_properties rest)"
| "swc_elements [] = True"
| "swc_elements (v # rest) = (swc_node v \<and> swc_elements rest)"

definition swc_trees :: "('m, 'a) platform_scheme \<Rightarrow> bool" where
  "swc_trees pf = (\<forall>content options ast. parseSync pf content options = Some ast \<longrightarrow> swc_node ast)"

text \<open>The evidence types that the extractor gives to the imports of such a tree.\<close>

definition top_weight :: "EvidenceType \<Rightarrow> bool" where
  "top_weight t = (t = ''static_import'' \<or> t = ''export_from'' \<or> t = ''require'')"

text \<open>The array that a completion of the walk leaves.\<close>

definition collected :: "'s completion \<Rightarrow> 's" where
  "collected c = (case c of Normal s \<Rightarrow> s | Abrupt e s \<Rightarrow> s)"

subsection \<open>Notions for comparing two scans\<close>

text \<open>The evidence recorded for a name, as \<^verbatim>\<open>runScan\<close> reads it: \<^verbatim>\<open>evidenceMap.get(d) || []\<close>.\<close>

definition ev_of :: "scan_state \<Rightarrow> string \<Rightarrow> EvidenceEntry list" where
  "ev_of st d = (case evidenceMap st d of None \<Rightarrow> [] | Some es \<Rightarrow> es)"

text \<open>The synthetic entry that a cache hit on file \<open>f\<close> records.\<close>

definition cached_entry :: "string \<Rightarrow> EvidenceEntry" where
  "cached_entry f =
     \<lparr>e_file = f, e_line = None, e_type = ''static_import'', e_snippet = Some ''(cached)''\<rparr>"

text \<open>The entry that Stage B records for a parsed import.\<close>

definition parsed_entry :: "string \<Rightarrow> string \<Rightarrow> ParsedImport \<Rightarrow> EvidenceEntry" where
  "parsed_entry f content imp =
     \<lparr>e_file = f, e_line = Some (p_line imp), e_type = p_type imp,
      e_snippet = Some (extractSnippet content (p_line imp))\<rparr>"

text \<open>
  How the evidence of one name in a second scan relates to that of the first: it is empty
  exactly when the first is, it is not longer, it names the same files, and each of its
  entries is an entry of the first scan or the synthetic entry of a cache hit.
\<close>

definition evidence_rerun :: "EvidenceEntry list \<Rightarrow> EvidenceEntry list \<Rightarrow> bool" where
  "evidence_rerun es1 es2 =
     ((es2 = [] \<longleftrightarrow> es1 = []) \<and> length es2 \<le> length es1 \<and>
      e_file ` set es2 = e_file ` set es1 \<and>
      (\<forall>e \<in> set es2. e \<in> set es1 \<or> e = cached_entry (e_file e)))"

text \<open>
  The states of two scans at the same file: the side maps agree, the evidence of every
  name is related as above, and every entry has one of the three types of weight 1.
\<close>

definition state_rerun :: "scan_state \<Rightarrow> scan_state \<Rightarrow> bool" where
  "state_rerun st1 st2 =
     (sideMap st2 = sideMap st1 \<and>
      (\<forall>d. evidence_rerun (ev_of st1 d) (ev_of st2 d) \<and>
           list_all (\<lambda>e. top_weight (e_type e)) (ev_of st1 d) \<and>
           list_all (\<lambda>e. top_weight (e_type e)) (ev_of st2 d)))"

text \<open>
  The results of one dependency in the two scans: all fields but the evidence agree, and
  the evidence is related as above.
\<close>

definition result_rerun :: "PackageResult \<Rightarrow> PackageResult \<Rightarrow> bool" where
  "result_rerun p1 p2 =
     (r_name p2 = r_name p1 \<and> r_section p2 = r_section p1 \<and> r_status p2 = r_status p1 \<and>
      r_confidence p2 = r_confidence p1 \<and> r_side p2 = r_side p1 \<and> r_notes p2 = r_notes p1 \<and>
      evidence_rerun (r_evidence p1) (r_evidence p2))"

text \<open>Two file systems that differ in the cache directory only.\<close>

definition same_files :: "fs \<Rightarrow> fs \<Rightarrow> bool" where
  "same_files a b = (files b = files a \<and> mtimes b = mtimes a \<and> write_ok b = write_ok a)"

text \<open>The names of the parsed imports that are declared, in order.\<close>

definition declared_imports :: "string list \<Rightarrow> ParsedImport list \<Rightarrow> string list" where
  "declared_imports names imports = filter (\<lambda>n. n \<in> set names) (map packageName imports)"


text \<open>What a run of \<^verbatim>\<open>updateSideMap\<close> over a set of names with one flag does to the side map.\<close>

definition mark_sides ::
  "string set \<Rightarrow> bool option \<Rightarrow> (string \<rightharpoonup> (string \<rightharpoonup> bool)) \<Rightarrow> (string \<rightharpoonup> (string \<rightharpoonup> bool))"
  where
  "mark_sides S flag m =
     (\<lambda>d. if d \<in> S
          then Some ((case m d of None \<Rightarrow> Map.empty | Some s \<Rightarrow> s)
                       ((if flag = Some True then ''client'' else ''server'') \<mapsto> True))
          else m d)"

text \<open>The set \<^verbatim>\<open>foundPackages\<close> and the cache entry that Stage B writes for a file.\<close>

definition found_packages ::
  "('m, 'a) platform_scheme \<Rightarrow> string \<Rightarrow> string list \<Rightarrow> string \<Rightarrow> string list" where
  "found_packages pf f names content =
     fold (\<lambda>pkg found. Set_add found pkg) (declared_imports names (parseFile pf content f)) []"

definition stageB_entry ::
  "('m, 'a) platform_scheme \<Rightarrow> string \<Rightarrow> string list \<Rightarrow> string \<Rightarrow> real \<Rightarrow> CacheEntry" where
  "stageB_entry pf f names content mtime =
     \<lparr>c_hash = createHash pf content, c_mtime = mtime,
      c_imports = Some (found_packages pf f names content),
      c_isClient = Some (detectUseClient content)\<rparr>"

text \<open>The state after the \<^verbatim>\<open>try\<close> block of Stage B on a readable file.\<close>

definition stageB_state ::
  "('m, 'a) platform_scheme \<Rightarrow> CacheManager \<Rightarrow> string \<Rightarrow> string list \<Rightarrow> string \<Rightarrow> real option
     \<Rightarrow> scan_state \<Rightarrow> scan_state" where
  "stageB_state pf cache f names content stats st =
     (let st' = fst (fold (record_import f names content (detectUseClient content))
                       (parseFile pf content f) (st, []))
      in case stats of
           None \<Rightarrow> st'
         | Some mtime \<Rightarrow>
             st'\<lparr>disk := CacheManager_set pf cache (disk st') f
                            (stageB_entry pf f names content mtime)\<rparr>)"

section \<open>Properties\<close>

subsection \<open>Confidence\<close>

lemma score_base_weight: "score e = base_weight (e_type e)"
  by (simp add: score_def base_weight_def)

lemma base_weight_spec:
  assumes "t \<notin> set Object_prototype_properties"
  shows "base_weight t = Some (spec_weight t)"
  using assms
  by (simp add: base_weight_def score_def read_property_def EVIDENCE_SCORES_def spec_weight_def)


lemma score_spec:
  assumes "e_type e \<notin> set Object_prototype_properties"
  shows "score e = Some (spec_weight (e_type e))"
  using base_weight_spec [OF assms] by (simp add: score_base_weight)

lemma fold_max_number:
  assumes "\<forall>e \<in> set es. e_type e \<notin> set Object_prototype_properties"
  shows "fold max_number (map score es) (Some a) =
           Some (fold max (map (\<lambda>e. spec_weight (e_type e)) es) a)"
  using assms
proof (induction es arbitrary: a)
  case Nil
  show ?case by simp
next
  case (Cons e es)
  have "score e = Some (spec_weight (e_type e))"
    using Cons.prems by (intro score_spec) simp
  then have "max_number (score e) (Some a) = Some (max (spec_weight (e_type e)) a)"
    by (simp add: max_number_def)
  with Cons.IH [of "max (spec_weight (e_type e)) a"] Cons.prems show ?case by simp
qed

lemma calculateConfidence_closed:
  assumes "es \<noteq> []" and "\<forall>e \<in> set es. e_type e \<notin> set Object_prototype_properties"
  shows "calculateConfidence es =
     Some (min (Max ((\<lambda>e. spec_weight (e_type e)) ` set es)
                + min ((real (length es) - 1) * (5/100)) (15/100)) 1)"
proof (cases es)
  case Nil
  with assms show ?thesis by simp
next
  case (Cons e es')
  let ?w = "\<lambda>e. spec_weight (e_type e)"
  have e: "score e = Some (?w e)" using assms(2) Cons by (intro score_spec) simp
  have "fold max_number (map score es') (Some (?w e)) = Some (fold max (map ?w es') (?w e))"
    using assms(2) Cons by (intro fold_max_number) simp
  moreover have "fold max (map ?w es') (?w e) = Max (set (?w e # map ?w es'))"
    by (rule Max.set_eq_fold [symmetric])
  ultimately show ?thesis using Cons e by (simp add: Let_def)
qed










subsection \<open>Classification\<close>

text \<open>
  Claim C5. With \<open>minUnused \<le> minUsed\<close>, the status is \<open>used\<close> exactly when the confidence
  is at least \<open>minUsed\<close>, \<open>unused\<close> exactly when it is below \<open>minUnused\<close>, and \<open>uncertain\<close>
  otherwise; a confidence equal to \<open>minUnused\<close> is not \<open>unused\<close>. With the thresholds 0.3 and
  0.7: 0.75 and 0.7 are used, 0.29 is unused, 0.3 and 0.69 are uncertain.
\<close>

theorem C5_classify:
  assumes "minUnused \<le> minUsed"
  shows "(classifyDependency c minUnused minUsed = used \<longleftrightarrow> c \<ge> minUsed) \<and>
         (classifyDependency c minUnused minUsed = unused \<longleftrightarrow> c < minUnused) \<and>
         (classifyDependency c minUnused minUsed = uncertain \<longleftrightarrow> minUnused \<le> c \<and> c < minUsed) \<and>
         classifyDependency minUnused minUnused minUsed \<noteq> unused \<and>
         classifyDependency (75/100) (3/10) (7/10) = used \<and>
         classifyDependency (7/10) (3/10) (7/10) = used \<and>
         classifyDependency (29/100) (3/10) (7/10) = unused \<and>
         classifyDependency (3/10) (3/10) (7/10) = uncertain \<and>
         classifyDependency (69/100) (3/10) (7/10) = uncertain"
  using assms by (auto simp: classifyDependency_def)

theorem C5_classify_witness:
  "(3/10 :: real) \<le> 7/10 \<and>
   classifyDependency (3/10) (3/10) (7/10) = uncertain \<and>
   classifyDependency (3/10) (3/10) (7/10) \<noteq> unused"
proof -
  have h: "(3/10 :: real) \<le> 7/10" by simp
  from C5_classify [OF h, of "3/10"] h show ?thesis by simp
qed

subsection \<open>Normalization\<close>

lemma split_nonempty: "split sep s \<noteq> []"
  by (induction s) (auto split: list.splits)

lemma hd_split: "hd (split sep s) = takeWhile (\<lambda>c. c \<noteq> sep) s"
  by (induction s) (auto split: list.splits simp: split_nonempty)

lemma split_no_sep: "sep \<notin> set s \<Longrightarrow> split sep s = [s]"
  by (induction s) (auto split: list.splits)

lemma split_append_sep: "sep \<notin> set a \<Longrightarrow> split sep (a @ sep # b) = a # split sep b"
  by (induction a) (auto split: list.splits)

lemma split_has_sep:
  assumes "sep \<in> set s"
  shows "split sep s =
    takeWhile (\<lambda>c. c \<noteq> sep) s # split sep (tl (dropWhile (\<lambda>c. c \<noteq> sep) s))"
proof -
  let ?a = "takeWhile (\<lambda>c. c \<noteq> sep) s" and ?d = "dropWhile (\<lambda>c. c \<noteq> sep) s"
  have "?d \<noteq> []" using assms by (simp add: dropWhile_eq_Nil_conv)
  moreover have "hd ?d = sep"
    using assms hd_dropWhile [of "\<lambda>c. c \<noteq> sep" s] calculation by auto
  ultimately have d: "?d = sep # tl ?d" by (cases ?d) auto
  have "sep \<notin> set ?a" by (auto dest: set_takeWhileD)
  then have "split sep (?a @ sep # tl ?d) = ?a # split sep (tl ?d)"
    by (rule split_append_sep)
  with d show ?thesis by (metis takeWhile_dropWhile_id)
qed

lemma length_split_ge2: "length (split sep s) \<ge> 2 \<longleftrightarrow> sep \<in> set s"
proof
  assume "2 \<le> length (split sep s)"
  then show "sep \<in> set s"
    using split_no_sep [of sep s] by (cases "sep \<in> set s") auto
next
  assume "sep \<in> set s"
  from split_has_sep [OF this] split_nonempty [of sep "tl (dropWhile (\<lambda>c. c \<noteq> sep) s)"]
  show "2 \<le> length (split sep s)"
    by (cases "split sep (tl (dropWhile (\<lambda>c. c \<noteq> sep) s))") auto
qed

lemma takeWhile_neq_id: "x \<notin> set a \<Longrightarrow> takeWhile (\<lambda>c. c \<noteq> x) a = a"
  by (induction a) auto

lemma takeWhile_neq_append: "x \<notin> set a \<Longrightarrow> takeWhile (\<lambda>c. c \<noteq> x) (a @ x # b) = a"
  by (induction a) auto

lemma dropWhile_neq_append:
  "x \<notin> set a \<Longrightarrow> dropWhile (\<lambda>c. c \<noteq> x) (a @ x # b) = x # b"
  by (induction a) auto

lemma normalize_scoped:
  assumes "startsWith s ''@''" "CHR ''/'' \<in> set s"
  shows "normalizePackageName s = spec_first_segment s @ ''/'' @ spec_second_segment s"
proof -
  have l: "length (split (CHR ''/'') s) \<ge> 2"
    using assms(2) by (simp add: length_split_ge2)
  have "split (CHR ''/'') s ! 1 =
        hd (split (CHR ''/'') (tl (dropWhile (\<lambda>c. c \<noteq> CHR ''/'') s)))"
    using split_has_sep [OF assms(2)] split_nonempty by (simp add: hd_conv_nth)
  then have "split (CHR ''/'') s ! 1 = spec_second_segment s"
    by (simp add: hd_split spec_second_segment_def)
  moreover have "split (CHR ''/'') s ! 0 = spec_first_segment s"
    using split_has_sep [OF assms(2)] by (simp add: spec_first_segment_def)
  ultimately show ?thesis
    using assms(1) l by (simp add: normalizePackageName_def Let_def)
qed

lemma normalize_plain:
  assumes "\<not> (startsWith s ''@'' \<and> CHR ''/'' \<in> set s)"
  shows "normalizePackageName s = spec_first_segment s"
proof -
  have "split (CHR ''/'') s ! 0 = spec_first_segment s"
    using hd_split [of "CHR ''/''" s] split_nonempty [of "CHR ''/''" s]
    by (simp add: hd_conv_nth spec_first_segment_def)
  then show ?thesis
    using assms length_split_ge2 [of "CHR ''/''" s]
    by (auto simp: normalizePackageName_def Let_def)
qed

lemma normalize_refines_spec: "normalizePackageName s = spec_normalize s"
  using normalize_scoped [of s] normalize_plain [of s] by (simp add: spec_normalize_def)

lemma first_segment_no_slash: "CHR ''/'' \<notin> set (spec_first_segment s)"
  by (auto simp: spec_first_segment_def dest: set_takeWhileD)

lemma second_segment_no_slash: "CHR ''/'' \<notin> set (spec_second_segment s)"
  by (auto simp: spec_second_segment_def dest: set_takeWhileD)

lemma first_segment_id: "CHR ''/'' \<notin> set s \<Longrightarrow> spec_first_segment s = s"
  by (simp add: spec_first_segment_def takeWhile_neq_id)

lemma normalize_idem: "normalizePackageName (normalizePackageName s) = normalizePackageName s"
proof (cases "startsWith s ''@'' \<and> CHR ''/'' \<in> set s")
  case True
  let ?r = "spec_first_segment s @ ''/'' @ spec_second_segment s"
  have r: "normalizePackageName s = ?r" using True by (simp add: normalize_scoped)
  have at: "startsWith ?r ''@''"
    using True by (cases s) (auto simp: startsWith_def spec_first_segment_def)
  have sl: "CHR ''/'' \<in> set ?r" by simp
  have f: "spec_first_segment ?r = spec_first_segment s"
    using first_segment_no_slash [of s]
    by (simp add: spec_first_segment_def takeWhile_neq_append)
  have g: "spec_second_segment ?r = spec_second_segment s"
    using first_segment_no_slash [of s] second_segment_no_slash [of s]
    by (simp add: spec_second_segment_def [of "_ @ _"] spec_first_segment_def
        dropWhile_neq_append takeWhile_neq_id)
  show ?thesis unfolding r using normalize_scoped [OF at sl] f g by simp
next
  case False
  then have r: "normalizePackageName s = spec_first_segment s" by (rule normalize_plain)
  have "\<not> (startsWith (spec_first_segment s) ''@'' \<and> CHR ''/'' \<in> set (spec_first_segment s))"
    using first_segment_no_slash by simp
  then have "normalizePackageName (spec_first_segment s) = spec_first_segment (spec_first_segment s)"
    by (rule normalize_plain)
  then show ?thesis
    unfolding r using first_segment_no_slash [of s] by (simp add: first_segment_id)
qed

lemma normalize_examples:
  "normalizePackageName ''@scope/pkg/sub/path'' = ''@scope/pkg'' \<and>
   normalizePackageName ''lodash/debounce'' = ''lodash'' \<and>
   normalizePackageName ''react'' = ''react'' \<and>
   normalizePackageName '''' = ''''"
  by (simp add: normalizePackageName_def startsWith_def)

text \<open>
  Claim C7. Normalization returns the first two segments joined by a slash when the
  specifier starts with \<open>@\<close> and has at least two segments (contains a slash), and the
  first segment otherwise; \<open>@scope/pkg/sub/path\<close> gives \<open>@scope/pkg\<close>, \<open>lodash/debounce\<close>
  gives \<open>lodash\<close>, \<open>react\<close> gives \<open>react\<close>, the empty string gives the empty string (the
  function is total: no input makes it throw); and normalizing twice is the same as
  normalizing once. Both copies of the function (parser and scanner) agree.
\<close>

theorem C7_normalize:
  "normalizePackageName x = spec_normalize x \<and>
   scanner_normalizePackageName x = normalizePackageName x \<and>
   normalizePackageName ''@scope/pkg/sub/path'' = ''@scope/pkg'' \<and>
   normalizePackageName ''lodash/debounce'' = ''lodash'' \<and>
   normalizePackageName ''react'' = ''react'' \<and>
   normalizePackageName '''' = '''' \<and>
   normalizePackageName (normalizePackageName x) = normalizePackageName x"
proof -
  have "scanner_normalizePackageName x = normalizePackageName x"
    by (simp add: scanner_normalizePackageName_def normalizePackageName_def)
  with normalize_refines_spec [of x] normalize_examples normalize_idem [of x]
  show ?thesis by blast
qed

theorem C7_normalize_witness:
  "normalizePackageName ''@types/node/fs'' = ''@types/node'' \<and>
   normalizePackageName (normalizePackageName ''@types/node/fs'') = ''@types/node''"
proof -
  have s: "spec_normalize ''@types/node/fs'' = ''@types/node''"
    by (simp add: spec_normalize_def spec_first_segment_def spec_second_segment_def
        startsWith_def)
  from C7_normalize [of "''@types/node/fs''"] s show ?thesis by metis
qed

subsection \<open>Directive detection\<close>

lemma directive_substantive: "is_directive l \<Longrightarrow> substantive l"
  unfolding is_directive_def substantive_def replace_trailing_semi_def
    use_client_dq_def use_client_sq_def startsWith_def
  by (cases "trim l" rule: rev_cases) (auto split: if_splits)

lemma detectUseClient_loop_spec:
  "detectUseClient_loop ls =
     (case List.find substantive ls of None \<Rightarrow> False | Some l \<Rightarrow> is_directive l)"
proof (induction ls)
  case Nil
  show ?case by simp
next
  case (Cons l ls)
  show ?case
  proof (cases "is_directive l")
    case True
    with directive_substantive [OF True] show ?thesis
      by (simp add: Let_def is_directive_def)
  next
    case False
    then show ?thesis
      using Cons by (simp add: Let_def is_directive_def substantive_def)
  qed
qed

text \<open>
  The parser's detector, with its window of 20 lines, is the detector of the specification.
\<close>

lemma detectUseClient_spec: "detectUseClient c = spec_detect 20 c"
  by (simp add: detectUseClient_def spec_detect_def detectUseClient_loop_spec)

text \<open>
  Claim C6. The detector returns true exactly when, within its window (20 lines; 10 for the
  scanner's \<^verbatim>\<open>hasUseClient\<close>), the first substantive line, less one optional trailing
  semicolon, is the quoted directive, and a directive after substantive code is never
  detected. The scanner's variant does not do this. On the input of its own test
  (\<^verbatim>\<open>"use client";\<close>, a blank line, an import), where the specification and the test expect
  true, it answers false, because it never strips the semicolon; the parser's detector
  answers true there. And it answers true for a directive that follows substantive code,
  because it does not stop at the first substantive line.
\<close>

theorem C6_hasUseClient_diverges:
  \<open>hasUseClient (''"use client";'' @ [CHR 0x0A, CHR 0x0A] @ ''import React from "react";'')
     = False \<and>
   spec_detect 10 (''"use client";'' @ [CHR 0x0A, CHR 0x0A] @ ''import React from "react";'')
     = True \<and>
   detectUseClient (''"use client";'' @ [CHR 0x0A, CHR 0x0A] @ ''import React from "react";'')
     = True \<and>
   hasUseClient (''import x'' @ [CHR 0x0A] @ ''"use client"'') = True \<and>
   spec_detect 10 (''import x'' @ [CHR 0x0A] @ ''"use client"'') = False\<close>
  by (simp add: hasUseClient_def detectUseClient_def spec_detect_def substantive_def
      is_directive_def trim_def js_whitespace_def use_client_dq_def use_client_sq_def
      replace_trailing_semi_def startsWith_def)

subsection \<open>Cache lookup\<close>

lemma CacheManager_get_returns: "\<exists>r. CacheManager_get pf this fs p = Inr r"
  by (simp add: CacheManager_get_def split: sum.splits)

lemma CacheManager_get_Some_iff:
  "CacheManager_get pf this fs p = Inr (Some e) \<longleftrightarrow>
     enabled this \<and> cache_files fs (getCacheFilePath pf this p) = Some (Stored e) \<and>
     mtimes fs p = Some (c_mtime e)"
  by (auto simp: CacheManager_get_def CacheManager_get_try_def Let_def
      split: sum.splits option.splits cache_file.splits if_splits)

lemma CacheManager_get_cases:
  "CacheManager_get pf this fs p = Inr None \<or>
   (\<exists>e. CacheManager_get pf this fs p = Inr (Some e))"
  using CacheManager_get_returns [of pf this fs p] by (metis option.exhaust)

text \<open>
  Claim C9. \<^verbatim>\<open>get\<close> never raises: it always returns, and it returns null when caching is
  disabled, when the cache file is missing or unreadable, when its content does not parse,
  when the source file cannot be stat-ed, and when the stored modification time differs
  from the current one. It returns an entry only when caching is enabled, that entry is
  the stored one and its modification time equals the file's current one; and in that
  situation it does return it.
\<close>

theorem C9_cache_get:
  "(\<exists>r. CacheManager_get pf this fs p = Inr r) \<and>
   (\<not> enabled this \<longrightarrow> CacheManager_get pf this fs p = Inr None) \<and>
   (cache_files fs (getCacheFilePath pf this p) = None \<longrightarrow>
      CacheManager_get pf this fs p = Inr None) \<and>
   (cache_files fs (getCacheFilePath pf this p) = Some Corrupt \<longrightarrow>
      CacheManager_get pf this fs p = Inr None) \<and>
   (mtimes fs p = None \<longrightarrow> CacheManager_get pf this fs p = Inr None) \<and>
   (\<forall>e. cache_files fs (getCacheFilePath pf this p) = Some (Stored e) \<and>
        mtimes fs p \<noteq> Some (c_mtime e) \<longrightarrow>
        CacheManager_get pf this fs p = Inr None) \<and>
   (\<forall>e. CacheManager_get pf this fs p = Inr (Some e) \<longleftrightarrow>
        enabled this \<and> cache_files fs (getCacheFilePath pf this p) = Some (Stored e) \<and>
        mtimes fs p = Some (c_mtime e))"
proof -
  have none: "CacheManager_get pf this fs p = Inr None"
    if "\<And>e. CacheManager_get pf this fs p \<noteq> Inr (Some e)"
    using that CacheManager_get_cases [of pf this fs p] by blast
  have 1: "\<not> enabled this \<longrightarrow> CacheManager_get pf this fs p = Inr None"
    by (simp add: CacheManager_get_def)
  have 2: "cache_files fs (getCacheFilePath pf this p) = None \<longrightarrow>
      CacheManager_get pf this fs p = Inr None"
    using none by (auto simp: CacheManager_get_Some_iff)
  have 3: "cache_files fs (getCacheFilePath pf this p) = Some Corrupt \<longrightarrow>
      CacheManager_get pf this fs p = Inr None"
    using none by (auto simp: CacheManager_get_Some_iff)
  have 4: "mtimes fs p = None \<longrightarrow> CacheManager_get pf this fs p = Inr None"
    using none by (auto simp: CacheManager_get_Some_iff)
  have 5: "\<forall>e. cache_files fs (getCacheFilePath pf this p) = Some (Stored e) \<and>
        mtimes fs p \<noteq> Some (c_mtime e) \<longrightarrow>
        CacheManager_get pf this fs p = Inr None"
    by (auto simp: CacheManager_get_def CacheManager_get_try_def Let_def
        split: option.splits)
  from CacheManager_get_returns [of pf this fs p] 1 2 3 4 5 CacheManager_get_Some_iff
  show ?thesis by blast
qed

theorem C9_cache_get_witness:
  "CacheManager_get
     \<lparr>sha256 = (\<lambda>s. ''00112233445566778899''), path_join = (\<lambda>a b. a @ ''/'' @ b)\<rparr>
     \<lparr>cacheDir = ''/repo/.midna-cache'', enabled = True\<rparr>
     \<lparr>files = Map.empty, mtimes = [''/repo/app/a.ts'' \<mapsto> 1700],
      cache_files = [''/repo/.midna-cache/0011223344556677__repo_app_a.ts.json'' \<mapsto>
        Stored \<lparr>c_hash = ''h'', c_mtime = 1700, c_imports = Some [''react''], c_isClient = Some False\<rparr>],
      write_ok = (\<lambda>_. True)\<rparr>
     ''/repo/app/a.ts''
   = Inr (Some \<lparr>c_hash = ''h'', c_mtime = 1700, c_imports = Some [''react''], c_isClient = Some False\<rparr>)
   \<and>
   CacheManager_get
     \<lparr>sha256 = (\<lambda>s. ''00112233445566778899''), path_join = (\<lambda>a b. a @ ''/'' @ b)\<rparr>
     \<lparr>cacheDir = ''/repo/.midna-cache'', enabled = True\<rparr>
     \<lparr>files = Map.empty, mtimes = [''/repo/app/a.ts'' \<mapsto> 1701],
      cache_files = [''/repo/.midna-cache/0011223344556677__repo_app_a.ts.json'' \<mapsto>
        Stored \<lparr>c_hash = ''h'', c_mtime = 1700, c_imports = Some [''react''], c_isClient = Some False\<rparr>],
      write_ok = (\<lambda>_. True)\<rparr>
     ''/repo/app/a.ts''
   = Inr None"
proof -
  let ?pf = "\<lparr>sha256 = (\<lambda>s. ''00112233445566778899''), path_join = (\<lambda>a b. a @ ''/'' @ b)\<rparr>"
  let ?cm = "\<lparr>cacheDir = ''/repo/.midna-cache'', enabled = True\<rparr>"
  let ?e = "\<lparr>c_hash = ''h'', c_mtime = 1700, c_imports = Some [''react''], c_isClient = Some False\<rparr>"
  let ?fs = "\<lambda>m. \<lparr>files = Map.empty, mtimes = [''/repo/app/a.ts'' \<mapsto> m],
      cache_files = [''/repo/.midna-cache/0011223344556677__repo_app_a.ts.json'' \<mapsto> Stored ?e],
      write_ok = (\<lambda>_. True)\<rparr>"
  have path: "getCacheFilePath ?pf ?cm ''/repo/app/a.ts''
      = ''/repo/.midna-cache/0011223344556677__repo_app_a.ts.json''"
    by (simp add: getCacheFilePath_def createHash_def Let_def)
  have a: "CacheManager_get ?pf ?cm (?fs 1700) ''/repo/app/a.ts'' = Inr (Some ?e)"
    using C9_cache_get [of ?pf ?cm "?fs 1700" "''/repo/app/a.ts''"] path by simp
  have b: "CacheManager_get ?pf ?cm (?fs 1701) ''/repo/app/a.ts'' = Inr None"
    using C9_cache_get [of ?pf ?cm "?fs 1701" "''/repo/app/a.ts''"] path by simp
  from a b show ?thesis by simp
qed

subsection \<open>Stage A: the prefilter\<close>

lemma parse_escaped_char:
  "parse_pattern None acc
     ((if c \<in> set [CHR ''.'', CHR ''*'', CHR ''+'', CHR ''?'', CHR ''^'', CHR ''$'',
                                   CHR ''{'', CHR ''}'', CHR ''('', CHR '')'', CHR ''|'', CHR ''['',
                                   CHR '']'', backslash]
                     then [backslash, c] else [c]) @ rest)
   = parse_pattern None (Item (AChar c) One False # acc) rest"
  by (auto simp: syntax_character_def backslash_def)

lemma parse_escapeRegex:
  "parse_pattern None acc (escapeRegex n @ rest) = parse_pattern None (rev (lits n) @ acc) rest"
proof (induction n arbitrary: acc)
  case Nil
  show ?case by (simp add: escapeRegex_def lits_def)
next
  case (Cons c n)
  have "escapeRegex (c # n) @ rest =
     (if c \<in> set [CHR ''.'', CHR ''*'', CHR ''+'', CHR ''?'', CHR ''^'', CHR ''$'',
                                   CHR ''{'', CHR ''}'', CHR ''('', CHR '')'', CHR ''|'', CHR ''['',
                                   CHR '']'', backslash]
                     then [backslash, c] else [c]) @ (escapeRegex n @ rest)"
    by (simp add: escapeRegex_def)
  then show ?case
    using parse_escaped_char [of acc c "escapeRegex n @ rest"] Cons [of "Item (AChar c) One False # acc"]
    by (simp add: lits_def)
qed

lemma parse_quote_class:
  "parse_pattern None acc (quote_class @ rest) = parse_pattern None (quote_item # acc) rest"
  by (simp add: quote_class_def quote_item_def backslash_def single_quote_def double_quote_def)

lemma parse_escapeRegex_end:
  "parse_pattern None acc (escapeRegex n) = Some (rev acc @ lits n)"
  using parse_escapeRegex [of acc n "[]"] by simp

lemma parse_fastScan_patterns:
  "map (parse_pattern None []) (fastScan_patterns pkg) =
     [Some (from_items ''import'' pkg), Some (call_items ''import'' pkg),
      Some (call_items ''require'' pkg), Some (from_items ''export'' pkg),
      Some (literal_items pkg)]"
proof -
  have 5: "parse_pattern None [] (quote_class @ escapeRegex pkg @ quote_class)
      = Some (literal_items pkg)"
    using parse_quote_class [of "rev (lits pkg) @ [quote_item]" "[]"]
    by (simp add: parse_quote_class parse_escapeRegex literal_items_def)
  have 1: "parse_pattern None [] (''import'' @ [backslash] @ ''s+.*?'' @ [backslash] @ ''s+from''
        @ [backslash] @ ''s+'' @ quote_class @ escapeRegex pkg) = Some (from_items ''import'' pkg)"
    by (simp add: parse_quote_class parse_escapeRegex_end from_items_def lits_def space_item_def
        syntax_character_def backslash_def)
  have 4: "parse_pattern None [] (''export'' @ [backslash] @ ''s+.*?'' @ [backslash] @ ''s+from''
        @ [backslash] @ ''s+'' @ quote_class @ escapeRegex pkg) = Some (from_items ''export'' pkg)"
    by (simp add: parse_quote_class parse_escapeRegex_end from_items_def lits_def space_item_def
        syntax_character_def backslash_def)
  have 2: "parse_pattern None [] (''import'' @ [backslash] @ ''s*'' @ [backslash] @ ''('' @ [backslash]
        @ ''s*'' @ quote_class @ escapeRegex pkg) = Some (call_items ''import'' pkg)"
    by (simp add: parse_quote_class parse_escapeRegex_end call_items_def lits_def space_item_def
        syntax_character_def backslash_def)
  have 3: "parse_pattern None [] (''require'' @ [backslash] @ ''s*'' @ [backslash] @ ''('' @ [backslash]
        @ ''s*'' @ quote_class @ escapeRegex pkg) = Some (call_items ''require'' pkg)"
    by (simp add: parse_quote_class parse_escapeRegex_end call_items_def lits_def space_item_def
        syntax_character_def backslash_def)
  from 1 2 3 4 5 show ?thesis by (simp add: fastScan_patterns_def)
qed

lemma match_lits:
  "match_here (lits n @ rs) s \<longleftrightarrow> (\<exists>rest. s = n @ rest \<and> match_here rs rest)"
proof (induction n arbitrary: s)
  case Nil
  show ?case by (simp add: lits_def)
next
  case (Cons c n)
  show ?case
  proof (cases s)
    case Nil
    then show ?thesis by (simp add: lits_def)
  next
    case (Cons d ds)
    with Cons.IH [of ds] show ?thesis by (auto simp: lits_def)
  qed
qed

lemma match_one:
  "match_here (Item a One l # rs) s \<longleftrightarrow>
     (\<exists>c rest. s = c # rest \<and> atom_matches a c \<and> match_here rs rest)"
  by (cases s) auto

lemma match_star:
  "match_here (Item a ZeroOrMore l # rs) s \<longleftrightarrow>
     (\<exists>w rest. s = w @ rest \<and> list_all (atom_matches a) w \<and> match_here rs rest)"
proof (induction s)
  case Nil
  show ?case by simp
next
  case (Cons c cs)
  show ?case (is "?L = ?R")
  proof
    assume ?L
    then consider "match_here rs (c # cs)"
      | "atom_matches a c" "match_here (Item a ZeroOrMore l # rs) cs" by auto
    then show ?R
    proof cases
      case 1
      then have "c # cs = [] @ (c # cs) \<and> list_all (atom_matches a) [] \<and> match_here rs (c # cs)"
        by simp
      then show ?thesis by blast
    next
      case 2
      with Cons.IH obtain w rest where
        "cs = w @ rest" "list_all (atom_matches a) w" "match_here rs rest" by blast
      with 2 have "c # cs = (c # w) @ rest \<and> list_all (atom_matches a) (c # w) \<and> match_here rs rest"
        by simp
      then show ?thesis by blast
    qed
  next
    assume ?R
    then obtain w rest where
      w: "c # cs = w @ rest" "list_all (atom_matches a) w" "match_here rs rest" by blast
    show ?L
    proof (cases w)
      case Nil
      with w have "match_here rs (c # cs)" by simp
      then show ?thesis by simp
    next
      case (Cons d w')
      with w have "cs = w' @ rest" "list_all (atom_matches a) w'" "atom_matches a c" by auto
      with w(3) Cons.IH show ?thesis by auto
    qed
  qed
qed

lemma match_plus:
  "match_here (Item a OneOrMore l # rs) s \<longleftrightarrow>
     (\<exists>w rest. s = w @ rest \<and> w \<noteq> [] \<and> list_all (atom_matches a) w \<and> match_here rs rest)"
proof (cases s)
  case Nil
  then show ?thesis by simp
next
  case (Cons c cs)
  show ?thesis (is "?L = ?R")
  proof
    assume ?L
    with Cons have c: "atom_matches a c" and "match_here (Item a ZeroOrMore l # rs) cs" by auto
    then obtain w rest where
      "cs = w @ rest" "list_all (atom_matches a) w" "match_here rs rest"
      unfolding match_star by blast
    with c Cons have "s = (c # w) @ rest \<and> c # w \<noteq> [] \<and> list_all (atom_matches a) (c # w)
        \<and> match_here rs rest" by simp
    then show ?R by blast
  next
    assume ?R
    then obtain w rest where
      w: "s = w @ rest" "w \<noteq> []" "list_all (atom_matches a) w" "match_here rs rest" by blast
    then obtain d w' where d: "w = d # w'" by (cases w) auto
    with w Cons have "c = d" "cs = w' @ rest" "atom_matches a c" "list_all (atom_matches a) w'"
      by auto
    with w(4) have "match_here (Item a ZeroOrMore l # rs) cs" unfolding match_star by blast
    with \<open>atom_matches a c\<close> Cons show ?L by simp
  qed
qed

lemma search_iff: "search rs s \<longleftrightarrow> (\<exists>pre rest. s = pre @ rest \<and> match_here rs rest)"
proof (induction s)
  case Nil
  show ?case by simp
next
  case (Cons c cs)
  show ?case (is "?L = ?R")
  proof
    assume ?L
    then consider "match_here rs (c # cs)" | "search rs cs" by auto
    then show ?R
    proof cases
      case 1
      then have "c # cs = [] @ (c # cs) \<and> match_here rs (c # cs)" by simp
      then show ?thesis by blast
    next
      case 2
      with Cons.IH obtain pre rest where "cs = pre @ rest" "match_here rs rest" by blast
      then have "c # cs = (c # pre) @ rest \<and> match_here rs rest" by simp
      then show ?thesis by blast
    qed
  next
    assume ?R
    then obtain pre rest where p: "c # cs = pre @ rest" "match_here rs rest" by blast
    show ?L
    proof (cases pre)
      case Nil
      with p have "match_here rs (c # cs)" by simp
      then show ?thesis by simp
    next
      case (Cons d pre')
      with p have "cs = pre' @ rest" by simp
      with p(2) Cons.IH show ?thesis by auto
    qed
  qed
qed

lemma match_quote:
  "match_here (quote_item # rs) s \<longleftrightarrow> (\<exists>q rest. s = q # rest \<and> is_quote q \<and> match_here rs rest)"
  unfolding quote_item_def match_one by (auto simp: is_quote_def)

lemma match_end: "match_here [] s" by simp

lemma search_literal_items:
  "search (literal_items pkg) content \<longleftrightarrow> quoted_literal_occurs pkg content"
proof
  assume "search (literal_items pkg) content"
  then obtain pre rest where 1: "content = pre @ rest" "match_here (literal_items pkg) rest"
    unfolding search_iff by blast
  from 1(2) obtain q1 r1 where 2: "rest = q1 # r1" "is_quote q1" "match_here (lits pkg @ [quote_item]) r1"
    unfolding literal_items_def using match_quote [of "lits pkg @ [quote_item]" rest] by auto
  from 2(3) obtain r2 where 3: "r1 = pkg @ r2" "match_here [quote_item] r2"
    unfolding match_lits by blast
  from 3(2) obtain q2 post where 4: "r2 = q2 # post" "is_quote q2"
    unfolding match_quote by blast
  from 1 2 3 4 have "content = pre @ [q1] @ pkg @ [q2] @ post \<and> is_quote q1 \<and> is_quote q2" by simp
  then show "quoted_literal_occurs pkg content" unfolding quoted_literal_occurs_def by blast
next
  assume "quoted_literal_occurs pkg content"
  then obtain pre q1 q2 post where
    c: "content = pre @ [q1] @ pkg @ [q2] @ post" "is_quote q1" "is_quote q2"
    unfolding quoted_literal_occurs_def by blast
  have "match_here [quote_item] (q2 # post)" using c(3) unfolding match_quote by simp
  then have "match_here (lits pkg @ [quote_item]) (pkg @ q2 # post)" unfolding match_lits by blast
  then have "match_here (quote_item # lits pkg @ [quote_item]) (q1 # pkg @ q2 # post)"
    using c(2) unfolding match_quote [of "lits pkg @ [quote_item]"] by simp
  then have "match_here (literal_items pkg) ([q1] @ pkg @ [q2] @ post)"
    by (simp add: literal_items_def)
  with c(1) show "search (literal_items pkg) content" unfolding search_iff by blast
qed

lemma match_quoted_name:
  "match_here (quote_item # lits pkg) s \<longleftrightarrow> (\<exists>q post. s = [q] @ pkg @ post \<and> is_quote q)"
proof -
  have "match_here (lits pkg) r \<longleftrightarrow> (\<exists>post. r = pkg @ post)" for r
    using match_lits [of pkg "[]" r] by simp
  then show ?thesis unfolding match_quote by auto
qed

lemma match_spaces_star:
  "match_here (space_item ZeroOrMore # rs) s \<longleftrightarrow>
     (\<exists>w rest. s = w @ rest \<and> list_all js_whitespace w \<and> match_here rs rest)"
proof -
  have "atom_matches ASpace = js_whitespace" by (rule ext) simp
  then show ?thesis unfolding space_item_def match_star by simp
qed

lemma match_spaces_plus:
  "match_here (space_item OneOrMore # rs) s \<longleftrightarrow>
     (\<exists>w rest. s = w @ rest \<and> w \<noteq> [] \<and> list_all js_whitespace w \<and> match_here rs rest)"
proof -
  have "atom_matches ASpace = js_whitespace" by (rule ext) simp
  then show ?thesis unfolding space_item_def match_plus by simp
qed

lemma match_dots:
  "match_here (Item ADot ZeroOrMore l # rs) s \<longleftrightarrow>
     (\<exists>w rest. s = w @ rest \<and> list_all (\<lambda>c. \<not> line_terminator c) w \<and> match_here rs rest)"
proof -
  have "atom_matches ADot = (\<lambda>c. \<not> line_terminator c)" by (rule ext) simp
  then show ?thesis unfolding match_star by simp
qed

lemma match_paren:
  "match_here (Item (AChar (CHR ''('')) One False # rs) s \<longleftrightarrow>
     (\<exists>rest. s = ''('' @ rest \<and> match_here rs rest)"
  unfolding match_one by auto

lemma search_call_items:
  "search (call_items kw pkg) content \<longleftrightarrow> call_occurs kw pkg content"
proof
  assume "search (call_items kw pkg) content"
  then obtain pre r0 where 0: "content = pre @ r0" "match_here (call_items kw pkg) r0"
    unfolding search_iff by blast
  from 0(2) obtain r1 where 1: "r0 = kw @ r1"
    "match_here (space_item ZeroOrMore # Item (AChar (CHR ''('')) One False # space_item ZeroOrMore
        # quote_item # lits pkg) r1"
    unfolding call_items_def match_lits by auto
  from 1(2) obtain w1 r2 where 2: "r1 = w1 @ r2" "list_all js_whitespace w1"
    "match_here (Item (AChar (CHR ''('')) One False # space_item ZeroOrMore # quote_item # lits pkg) r2"
    unfolding match_spaces_star by blast
  from 2(3) obtain r3 where 3: "r2 = ''('' @ r3"
    "match_here (space_item ZeroOrMore # quote_item # lits pkg) r3"
    unfolding match_paren by blast
  from 3(2) obtain w2 r4 where 4: "r3 = w2 @ r4" "list_all js_whitespace w2"
    "match_here (quote_item # lits pkg) r4"
    unfolding match_spaces_star by blast
  from 4(3) obtain q post where 5: "r4 = [q] @ pkg @ post" "is_quote q"
    unfolding match_quoted_name by blast
  from 0 1 2 3 4 5 have "content = pre @ kw @ w1 @ ''('' @ w2 @ [q] @ pkg @ post" by simp
  with 2(2) 4(2) 5(2) show "call_occurs kw pkg content" unfolding call_occurs_def by blast
next
  assume "call_occurs kw pkg content"
  then obtain pre w1 w2 q post where
    c: "content = pre @ kw @ w1 @ ''('' @ w2 @ [q] @ pkg @ post"
    "list_all js_whitespace w1" "list_all js_whitespace w2" "is_quote q"
    unfolding call_occurs_def by blast
  have "match_here (quote_item # lits pkg) ([q] @ pkg @ post)"
    using c(4) unfolding match_quoted_name by blast
  then have "match_here (space_item ZeroOrMore # quote_item # lits pkg) (w2 @ [q] @ pkg @ post)"
    using c(3) unfolding match_spaces_star by blast
  then have "match_here (Item (AChar (CHR ''('')) One False # space_item ZeroOrMore # quote_item # lits pkg)
      (''('' @ w2 @ [q] @ pkg @ post)"
    unfolding match_paren by blast
  then have "match_here (space_item ZeroOrMore # Item (AChar (CHR ''('')) One False
      # space_item ZeroOrMore # quote_item # lits pkg) (w1 @ ''('' @ w2 @ [q] @ pkg @ post)"
    using c(2) unfolding match_spaces_star [of "Item (AChar (CHR ''('')) One False # _"] by blast
  then have "match_here (call_items kw pkg) (kw @ w1 @ ''('' @ w2 @ [q] @ pkg @ post)"
    unfolding call_items_def match_lits by simp
  with c(1) show "search (call_items kw pkg) content" unfolding search_iff by blast
qed

lemma search_from_items:
  "search (from_items kw pkg) content \<longleftrightarrow> from_occurs kw pkg content"
proof
  assume "search (from_items kw pkg) content"
  then obtain pre r0 where 0: "content = pre @ r0" "match_here (from_items kw pkg) r0"
    unfolding search_iff by blast
  from 0(2) obtain r1 where 1: "r0 = kw @ r1"
    "match_here (space_item OneOrMore # Item ADot ZeroOrMore True # space_item OneOrMore
        # lits ''from'' @ space_item OneOrMore # quote_item # lits pkg) r1"
    unfolding from_items_def match_lits by auto
  from 1(2) obtain w1 r2 where 2: "r1 = w1 @ r2" "w1 \<noteq> []" "list_all js_whitespace w1"
    "match_here (Item ADot ZeroOrMore True # space_item OneOrMore
        # lits ''from'' @ space_item OneOrMore # quote_item # lits pkg) r2"
    unfolding match_spaces_plus by blast
  from 2(4) obtain mid r3 where 3: "r2 = mid @ r3" "list_all (\<lambda>c. \<not> line_terminator c) mid"
    "match_here (space_item OneOrMore # lits ''from'' @ space_item OneOrMore # quote_item # lits pkg) r3"
    unfolding match_dots by blast
  from 3(3) obtain w2 r4 where 4: "r3 = w2 @ r4" "w2 \<noteq> []" "list_all js_whitespace w2"
    "match_here (lits ''from'' @ space_item OneOrMore # quote_item # lits pkg) r4"
    unfolding match_spaces_plus by blast
  from 4(4) obtain r5 where 5: "r4 = ''from'' @ r5"
    "match_here (space_item OneOrMore # quote_item # lits pkg) r5"
    unfolding match_lits by blast
  from 5(2) obtain w3 r6 where 6: "r5 = w3 @ r6" "w3 \<noteq> []" "list_all js_whitespace w3"
    "match_here (quote_item # lits pkg) r6"
    unfolding match_spaces_plus by blast
  from 6(4) obtain q post where 7: "r6 = [q] @ pkg @ post" "is_quote q"
    unfolding match_quoted_name by blast
  from 0 1 2 3 4 5 6 7
  have "content = pre @ kw @ w1 @ mid @ w2 @ ''from'' @ w3 @ [q] @ pkg @ post" by simp
  with 2(2,3) 3(2) 4(2,3) 6(2,3) 7(2) show "from_occurs kw pkg content"
    unfolding from_occurs_def by blast
next
  assume "from_occurs kw pkg content"
  then obtain pre w1 mid w2 w3 q post where
    c: "content = pre @ kw @ w1 @ mid @ w2 @ ''from'' @ w3 @ [q] @ pkg @ post"
    "w1 \<noteq> []" "list_all js_whitespace w1" "list_all (\<lambda>c. \<not> line_terminator c) mid"
    "w2 \<noteq> []" "list_all js_whitespace w2" "w3 \<noteq> []" "list_all js_whitespace w3" "is_quote q"
    unfolding from_occurs_def by blast
  have "match_here (quote_item # lits pkg) ([q] @ pkg @ post)"
    using c(9) unfolding match_quoted_name by blast
  then have "match_here (space_item OneOrMore # quote_item # lits pkg) (w3 @ [q] @ pkg @ post)"
    using c(7,8) unfolding match_spaces_plus by blast
  then have "match_here (lits ''from'' @ space_item OneOrMore # quote_item # lits pkg)
      (''from'' @ w3 @ [q] @ pkg @ post)"
    unfolding match_lits by blast
  then have "match_here (space_item OneOrMore # lits ''from'' @ space_item OneOrMore # quote_item # lits pkg)
      (w2 @ ''from'' @ w3 @ [q] @ pkg @ post)"
    using c(5,6) unfolding match_spaces_plus [of "lits ''from'' @ _"] by blast
  then have "match_here (Item ADot ZeroOrMore True # space_item OneOrMore # lits ''from''
      @ space_item OneOrMore # quote_item # lits pkg) (mid @ w2 @ ''from'' @ w3 @ [q] @ pkg @ post)"
    using c(4) unfolding match_dots by blast
  then have "match_here (space_item OneOrMore # Item ADot ZeroOrMore True # space_item OneOrMore
      # lits ''from'' @ space_item OneOrMore # quote_item # lits pkg)
      (w1 @ mid @ w2 @ ''from'' @ w3 @ [q] @ pkg @ post)"
    using c(2,3) unfolding match_spaces_plus [of "Item ADot ZeroOrMore True # _"] by blast
  then have "match_here (from_items kw pkg) (kw @ w1 @ mid @ w2 @ ''from'' @ w3 @ [q] @ pkg @ post)"
    unfolding from_items_def match_lits by simp
  with c(1) show "search (from_items kw pkg) content" unfolding search_iff by blast
qed

lemma fastScan_results:
  "map (\<lambda>pattern. RegExp_test pattern content) (fastScan_patterns pkg) =
     [Inr (from_occurs ''import'' pkg content), Inr (call_occurs ''import'' pkg content),
      Inr (call_occurs ''require'' pkg content), Inr (from_occurs ''export'' pkg content),
      Inr (quoted_literal_occurs pkg content)]"
proof -
  have "map (\<lambda>pattern. RegExp_test pattern content) (fastScan_patterns pkg) =
     map (\<lambda>r. case r of None \<Rightarrow> Inl SyntaxError | Some items \<Rightarrow> Inr (search items content))
       (map (parse_pattern None []) (fastScan_patterns pkg))"
    by (simp add: RegExp_test_def)
  then show ?thesis
    unfolding parse_fastScan_patterns
    by (simp add: search_from_items search_call_items search_literal_items)
qed

lemma some_pattern_matches_5:
  "some_pattern_matches [Inr a, Inr b, Inr c, Inr d, Inr e] \<longleftrightarrow> a \<or> b \<or> c \<or> d \<or> e"
  by (cases a; cases b; cases c; cases d; cases e) simp_all

lemma fastScan_loop_step:
  "fastScan_loop content (pkg # rest) found =
     fastScan_loop content rest
       (if possibly_referenced content pkg then Set_add found pkg else found)"
  by (simp add: fastScan_results any_pattern_throws_def some_pattern_matches_5
      possibly_referenced_def Let_def del: some_pattern_matches.simps)

lemma fastScan_loop_eq:
  "fastScan_loop content names found =
     Inr (fold (\<lambda>pkg found. if possibly_referenced content pkg then Set_add found pkg else found)
            names found)"
  by (induction names arbitrary: found) (simp_all add: fastScan_loop_step del: fastScan_loop.simps(2))

lemma set_fold_Set_add:
  "set (fold (\<lambda>x found. if P x then Set_add found x else found) xs found) =
     set found \<union> {x \<in> set xs. P x}"
  by (induction xs arbitrary: found) (auto simp: Set_add_def)

lemma distinct_fold_Set_add:
  "distinct found \<Longrightarrow> distinct (fold (\<lambda>x found. if P x then Set_add found x else found) xs found)"
  by (induction xs arbitrary: found) (auto simp: Set_add_def)

lemma fastScan_set:
  "files fs p = Some content \<Longrightarrow>
     set (fastScan fs p names) = {n \<in> set names. possibly_referenced content n}"
  by (simp add: fastScan_def fastScan_loop_eq set_fold_Set_add)

lemma fastScan_distinct: "distinct (fastScan fs p names)"
  by (simp add: fastScan_def fastScan_loop_eq distinct_fold_Set_add split: option.splits)

lemma fastScan_unreadable: "files fs p = None \<Longrightarrow> fastScan fs p names = []"
  by (simp add: fastScan_def)

text \<open>
  Claim C8. For a readable file, the prefilter returns a subset of the declared names. A
  declared name is included whenever one of its five patterns matches the content, and
  exactly when one of the five forms occurs in the content: \<^verbatim>\<open>import\<close> or \<^verbatim>\<open>export\<close>,
  white space, anything on one line, white space, \<^verbatim>\<open>from\<close>, white space, a quote and the
  name; \<^verbatim>\<open>import\<close> or \<^verbatim>\<open>require\<close>, an opening parenthesis, a quote and the name, with
  optional white space around the parenthesis; or the name between two quotes. So a string
  literal equal to a declared name suffices. After escaping, every character of the name is
  read by the pattern parser as a literal character, whatever metacharacters the name
  contains, and such a sequence of literals matches the text of the name and nothing else.
\<close>

theorem C8_prefilter:
  assumes "files fs p = Some content"
  shows "set (fastScan fs p names) \<subseteq> set names \<and>
    (\<forall>n \<in> set names.
       (\<exists>pattern \<in> set (fastScan_patterns n). RegExp_test pattern content = Inr True)
         \<longrightarrow> n \<in> set (fastScan fs p names)) \<and>
    (\<forall>n. n \<in> set (fastScan fs p names) \<longleftrightarrow> n \<in> set names \<and> possibly_referenced content n) \<and>
    (\<forall>n \<in> set names. quoted_literal_occurs n content \<longrightarrow> n \<in> set (fastScan fs p names)) \<and>
    (\<forall>n. map (parse_pattern None []) (fastScan_patterns n) =
       [Some (from_items ''import'' n), Some (call_items ''import'' n),
        Some (call_items ''require'' n), Some (from_items ''export'' n),
        Some (literal_items n)]) \<and>
    (\<forall>n rs s. match_here (lits n @ rs) s \<longleftrightarrow> (\<exists>rest. s = n @ rest \<and> match_here rs rest))"
proof -
  have s: "set (fastScan fs p names) = {n \<in> set names. possibly_referenced content n}"
    using assms by (rule fastScan_set)
  have a: "set (fastScan fs p names) \<subseteq> set names" using s by auto
  have b: "\<forall>n \<in> set names.
       (\<exists>pattern \<in> set (fastScan_patterns n). RegExp_test pattern content = Inr True)
         \<longrightarrow> n \<in> set (fastScan fs p names)"
  proof (intro ballI impI)
    fix n
    assume n: "n \<in> set names"
      and "\<exists>pattern \<in> set (fastScan_patterns n). RegExp_test pattern content = Inr True"
    then have "Inr True \<in> set (map (\<lambda>pattern. RegExp_test pattern content) (fastScan_patterns n))"
      by force
    then have "possibly_referenced content n"
      unfolding fastScan_results by (auto simp: possibly_referenced_def)
    with n s show "n \<in> set (fastScan fs p names)" by simp
  qed
  have c: "\<forall>n. n \<in> set (fastScan fs p names) \<longleftrightarrow> n \<in> set names \<and> possibly_referenced content n"
    using s by simp
  have d: "\<forall>n \<in> set names. quoted_literal_occurs n content \<longrightarrow> n \<in> set (fastScan fs p names)"
    using s by (simp add: possibly_referenced_def)
  from a b c d parse_fastScan_patterns match_lits show ?thesis by blast
qed

theorem C8_prefilter_witness:
  "files \<lparr>files = [''/r/a.js'' \<mapsto> ''import x from \"a.b\"; require( 'lodash/fp')''],
          mtimes = Map.empty, cache_files = Map.empty, write_ok = (\<lambda>_. True)\<rparr> ''/r/a.js''
     = Some ''import x from \"a.b\"; require( 'lodash/fp')'' \<and>
   fastScan \<lparr>files = [''/r/a.js'' \<mapsto> ''import x from \"a.b\"; require( 'lodash/fp')''],
          mtimes = Map.empty, cache_files = Map.empty, write_ok = (\<lambda>_. True)\<rparr> ''/r/a.js''
        [''a.b'', ''axb'', ''lodash'', ''react''] = [''a.b'', ''lodash''] \<and>
   possibly_referenced ''import x from \"a.b\"; require( 'lodash/fp')'' ''a.b'' \<and>
   \<not> possibly_referenced ''import x from \"a.b\"; require( 'lodash/fp')'' ''axb''"
proof -
  let ?content = "''import x from \"a.b\"; require( 'lodash/fp')''"
  let ?fs = "\<lparr>files = [''/r/a.js'' \<mapsto> ?content],
          mtimes = Map.empty, cache_files = Map.empty, write_ok = (\<lambda>_. True)\<rparr>"
  let ?names = "[''a.b'', ''axb'', ''lodash'', ''react'']"
  have h: "files ?fs ''/r/a.js'' = Some ?content" by simp
  have ev: "fastScan ?fs ''/r/a.js'' ?names = [''a.b'', ''lodash'']" by code_simp
  have iff: "\<forall>n. n \<in> set (fastScan ?fs ''/r/a.js'' ?names) \<longleftrightarrow>
      n \<in> set ?names \<and> possibly_referenced ?content n"
    using C8_prefilter [OF h, of ?names] by (elim conjE)
  have 1: "possibly_referenced ?content ''a.b''"
    using iff [rule_format, of "''a.b''"] unfolding ev by simp
  have 2: "\<not> possibly_referenced ?content ''axb''"
    using iff [rule_format, of "''axb''"] unfolding ev by simp
  from h ev 1 2 show ?thesis by blast
qed

subsection \<open>One result per declared name\<close>

lemma set_fold_Set_add_plain: "set (fold (\<lambda>x found. Set_add found x) xs found) = set found \<union> set xs"
  by (induction xs arbitrary: found) (auto simp: Set_add_def)

lemma distinct_fold_Set_add_plain:
  "distinct found \<Longrightarrow> distinct (fold (\<lambda>x found. Set_add found x) xs found)"
  by (induction xs arbitrary: found) (auto simp: Set_add_def)

lemma getAllDependencyNames_distinct: "distinct (getAllDependencyNames pkg)"
proof -
  have "distinct names \<Longrightarrow>
      distinct (fold (\<lambda>section names.
             case section_of pkg section of
               None \<Rightarrow> names
             | Some deps \<Rightarrow> fold (\<lambda>name names. Set_add names name) (map fst deps) names)
          secs names)" for secs names
    by (induction secs arbitrary: names)
      (auto simp: distinct_fold_Set_add_plain split: option.splits)
  then show ?thesis by (simp add: getAllDependencyNames_def)
qed

lemma getAllDependencyNames_set: "set (getAllDependencyNames pkg) = declared_names pkg"
proof -
  have "set (fold (\<lambda>section names.
             case section_of pkg section of
               None \<Rightarrow> names
             | Some deps \<Rightarrow> fold (\<lambda>name names. Set_add names name) (map fst deps) names)
          secs names)
      = set names \<union> (\<Union>section \<in> set secs.
          case section_of pkg section of None \<Rightarrow> {} | Some deps \<Rightarrow> fst ` set deps)"
    for secs names
    by (induction secs arbitrary: names)
      (auto simp: set_fold_Set_add_plain split: option.splits)
  then show ?thesis by (simp add: getAllDependencyNames_def declared_names_def)
qed

lemma count_status_total:
  "count_status used ps + count_status unused ps + count_status uncertain ps = length ps"
proof (induction ps)
  case Nil
  show ?case by (simp add: count_status_def)
next
  case (Cons p ps)
  then show ?case by (cases "r_status p") (simp_all add: count_status_def)
qed

lemma runScan_success:
  assumes "readPackageJson pf fs (manifest_path pf options) = Inr pkg"
    and "findFiles pf options fs = Inr fl"
    and "processFiles pf (scan_cache pf options) fl (getAllDependencyNames pkg)
           \<lparr>evidenceMap = Map.empty, sideMap = Map.empty, disk = fs\<rparr> = Normal st"
  shows "runScan pf now options fs = Inr (scan_result options now pkg st, disk st)"
  using assms by (simp add: runScan_def manifest_path_def scan_cache_def scan_result_def Let_def)

lemma runScan_returned:
  assumes "runScan pf now options fs = Inr (result, fs')"
  obtains pkg fl st where "readPackageJson pf fs (manifest_path pf options) = Inr pkg"
    and "findFiles pf options fs = Inr fl"
    and "processFiles pf (scan_cache pf options) fl (getAllDependencyNames pkg)
           \<lparr>evidenceMap = Map.empty, sideMap = Map.empty, disk = fs\<rparr> = Normal st"
    and "result = scan_result options now pkg st" and "fs' = disk st"
proof (cases "readPackageJson pf fs (manifest_path pf options)")
  case (Inl e)
  then have "runScan pf now options fs = Inl e"
    by (simp add: runScan_def manifest_path_def Let_def)
  with assms show ?thesis by simp
next
  case pkg: (Inr pkg)
  show ?thesis
  proof (cases "findFiles pf options fs")
    case (Inl e)
    with pkg have "runScan pf now options fs = Inl e"
      by (simp add: runScan_def manifest_path_def Let_def)
    with assms show ?thesis by simp
  next
    case fl: (Inr fl)
    show ?thesis
    proof (cases "processFiles pf (scan_cache pf options) fl (getAllDependencyNames pkg)
           \<lparr>evidenceMap = Map.empty, sideMap = Map.empty, disk = fs\<rparr>")
      case (Abrupt e st)
      with pkg fl have "runScan pf now options fs = Inl e"
        by (simp add: runScan_def manifest_path_def scan_cache_def Let_def)
      with assms show ?thesis by simp
    next
      case (Normal st)
      from runScan_success [OF pkg fl Normal, of now] assms
      have "result = scan_result options now pkg st" "fs' = disk st" by simp_all
      with pkg fl Normal that show ?thesis by blast
    qed
  qed
qed

lemma runScan_packages:
  assumes "runScan pf now options fs = Inr (result, fs')"
  shows "\<exists>pkg. readPackageJson pf fs (path_join pf (opt_cwd options) ''package.json'') = Inr pkg \<and>
           map r_name (s_packages result) = getAllDependencyNames pkg \<and>
           s_totals result = \<lparr>t_used = count_status used (s_packages result),
                               t_unused = count_status unused (s_packages result),
                               t_uncertain = count_status uncertain (s_packages result)\<rparr>"
proof (rule runScan_returned [OF assms])
  fix pkg fl st
  assume pkg: "readPackageJson pf fs (manifest_path pf options) = Inr pkg"
    and r: "result = scan_result options now pkg st"
  have "map r_name (s_packages result) = getAllDependencyNames pkg"
    unfolding r by (simp add: scan_result_def Let_def build_result_def comp_def)
  moreover have "s_totals result = \<lparr>t_used = count_status used (s_packages result),
                               t_unused = count_status unused (s_packages result),
                               t_uncertain = count_status uncertain (s_packages result)\<rparr>"
    unfolding r by (simp add: scan_result_def Let_def)
  ultimately show ?thesis using pkg by (auto simp: manifest_path_def)
qed

text \<open>
  Claim C10. The result of a scan holds one entry per declared dependency name: the names
  of the entries are the declared names of the four sections of the manifest that the scan
  read, each once; every entry has one of the three statuses; and the three totals add up
  to the number of entries. (A scan whose promise is rejected has no result.)
\<close>

theorem C10_one_result_per_dependency:
  "\<forall>result fs'. runScan pf now options fs = Inr (result, fs') \<longrightarrow>
      (\<exists>pkg. readPackageJson pf fs (path_join pf (opt_cwd options) ''package.json'') = Inr pkg \<and>
         set (map r_name (s_packages result)) = declared_names pkg) \<and>
      distinct (map r_name (s_packages result)) \<and>
      (\<forall>p \<in> set (s_packages result).
         r_status p = used \<or> r_status p = unused \<or> r_status p = uncertain) \<and>
      t_used (s_totals result) + t_unused (s_totals result) + t_uncertain (s_totals result)
        = length (s_packages result)"
proof (intro conjI allI impI)
  fix result fs'
  assume run: "runScan pf now options fs = Inr (result, fs')"
  from runScan_packages [OF run] obtain pkg where
    pkg: "readPackageJson pf fs (path_join pf (opt_cwd options) ''package.json'') = Inr pkg"
    and names: "map r_name (s_packages result) = getAllDependencyNames pkg"
    and totals: "s_totals result = \<lparr>t_used = count_status used (s_packages result),
                               t_unused = count_status unused (s_packages result),
                               t_uncertain = count_status uncertain (s_packages result)\<rparr>"
    by blast
  show "\<exists>pkg. readPackageJson pf fs (path_join pf (opt_cwd options) ''package.json'') = Inr pkg \<and>
         set (map r_name (s_packages result)) = declared_names pkg"
    using pkg names getAllDependencyNames_set [of pkg] by auto
  show "distinct (map r_name (s_packages result))"
    using names getAllDependencyNames_distinct [of pkg] by simp
  show "\<forall>p \<in> set (s_packages result).
         r_status p = used \<or> r_status p = unused \<or> r_status p = uncertain"
    by (meson DependencyStatus.exhaust)
  show "t_used (s_totals result) + t_unused (s_totals result) + t_uncertain (s_totals result)
        = length (s_packages result)"
    unfolding totals using count_status_total [of "s_packages result"] by simp
qed

theorem C10_one_result_per_dependency_witness:
  "\<exists>result fs'.
     runScan ex2_platform ''now'' ex_options ex2_fs = Inr (result, fs') \<and>
     map r_name (s_packages result) = [''react'', ''lodash'', ''typescript''] \<and>
     set (map r_name (s_packages result)) = declared_names ex2_manifest \<and>
     distinct (map r_name (s_packages result)) \<and>
     map r_status (s_packages result) = [used, used, unused] \<and>
     t_used (s_totals result) + t_unused (s_totals result) + t_uncertain (s_totals result) = 3"
proof -
  let ?path = "path_join ex2_platform (opt_cwd ex_options) ''package.json''"
  have m: "readPackageJson ex2_platform ex2_fs ?path = Inr ex2_manifest"
    by code_simp
  have "isl (runScan ex2_platform ''now'' ex_options ex2_fs) = False"
    by code_simp
  then obtain result fs' where
    run: "runScan ex2_platform ''now'' ex_options ex2_fs = Inr (result, fs')"
    by (cases "runScan ex2_platform ''now'' ex_options ex2_fs") auto
  from C10_one_result_per_dependency [of ex2_platform "''now''" ex_options ex2_fs,
      rule_format, OF run] obtain pkg where
    pkg: "readPackageJson ex2_platform ex2_fs ?path = Inr pkg"
    and names: "set (map r_name (s_packages result)) = declared_names pkg"
    and dist: "distinct (map r_name (s_packages result))"
    and total: "t_used (s_totals result) + t_unused (s_totals result)
                  + t_uncertain (s_totals result) = length (s_packages result)"
    by blast
  from pkg m have pkg_eq: "pkg = ex2_manifest" by simp
  have "map r_name (scan_packages (runScan ex2_platform ''now'' ex_options ex2_fs))
     = [''react'', ''lodash'', ''typescript'']"
    by code_simp
  then have n: "map r_name (s_packages result) = [''react'', ''lodash'', ''typescript'']"
    unfolding run by (simp add: scan_packages_def)
  have "map r_status (scan_packages (runScan ex2_platform ''now'' ex_options ex2_fs))
     = [used, used, unused]"
    by code_simp
  then have st: "map r_status (s_packages result) = [used, used, unused]"
    unfolding run by (simp add: scan_packages_def)
  have "length (map r_name (s_packages result)) = 3" unfolding n by simp
  then have len: "length (s_packages result) = 3" by simp
  have names': "set (map r_name (s_packages result)) = declared_names ex2_manifest"
    using names pkg_eq by simp
  have total': "t_used (s_totals result) + t_unused (s_totals result)
                  + t_uncertain (s_totals result) = 3"
    using total len by simp
  show ?thesis
    by (rule exI [of _ result], rule exI [of _ fs'])
      (intro conjI run n names' dist st total')
qed

subsection \<open>A file that does not parse\<close>

lemma parseFile_parse_failure:
  "parseSync pf content
     \<lparr>o_syntax = (if endsWith filePath ''.ts'' \<or> endsWith filePath ''.tsx''
                   then ''typescript'' else ''ecmascript''),
      o_tsx = endsWith filePath ''.tsx'', o_jsx = endsWith filePath ''.jsx'',
      o_target = ''es2022''\<rparr> = None \<Longrightarrow>
   parseFile pf content filePath = []"
  by (simp add: parseFile_def)

text \<open>
  Claim C1. When the parser fails on a file that has Stage A candidates, a
  \<^verbatim>\<open>string_reference\<close> entry is to be recorded for every candidate, which under the default
  thresholds gives confidence 0.3 and status uncertain. The code does not do this:
  \<^verbatim>\<open>parseFile\<close> catches the parser's exception itself and returns the empty list, so the
  \<^verbatim>\<open>catch\<close> block of \<^verbatim>\<open>processFile\<close> that holds the fallback is not entered. In the
  project \<open>ex_fs\<close>, Stage A finds the candidate \<^verbatim>\<open>some-pkg\<close>, the parse fails, and the scan
  reports the package with no evidence, confidence 0 and status unused.
\<close>

theorem C1_parse_failure_records_nothing:
  "fastScan ex_fs ''/repo/app/page.js'' [''some-pkg''] = [''some-pkg''] \<and>
   parseFile ex_platform ex_source_text ''/repo/app/page.js'' = [] \<and>
   scan_packages (runScan ex_platform ''now'' ex_options ex_fs) =
     [\<lparr>r_name = ''some-pkg'', r_section = dependencies, r_status = unused,
       r_confidence = Some 0, r_side = unknown, r_evidence = [], r_notes = []\<rparr>]"
  by code_simp

text \<open>
  Claim C2. A cache entry is to be written only when the parse succeeded. The code writes
  one after a failed parse as well, for the same reason: \<^verbatim>\<open>parseFile\<close> returns the empty
  list instead of throwing, and \<^verbatim>\<open>cache.set\<close> follows in the \<^verbatim>\<open>try\<close> block. In the project
  \<open>ex_fs\<close> the parse fails and the scan leaves an entry with an empty list of names for the
  file; the next scan is a cache hit on it and again reports no evidence.
\<close>

theorem C2_parse_failure_writes_cache_entry:
  "parseSync ex_platform ex_source_text
     \<lparr>o_syntax = ''ecmascript'', o_tsx = False, o_jsx = False, o_target = ''es2022''\<rparr> = None \<and>
   cache_files ex_fs ''/repo/.midna-cache/0011223344556677__repo_app_page.js.json'' = None \<and>
   cache_files (scan_disk ex_fs (runScan ex_platform ''now'' ex_options ex_fs))
       ''/repo/.midna-cache/0011223344556677__repo_app_page.js.json'' =
     Some (Stored \<lparr>c_hash = ''00112233445566778899'', c_mtime = 1700, c_imports = Some [],
                   c_isClient = Some False\<rparr>) \<and>
   map r_evidence
     (scan_packages
        (runScan ex_platform ''later'' ex_options
           (scan_disk ex_fs (runScan ex_platform ''now'' ex_options ex_fs)))) = [ [] ]"
  by code_simp

subsection \<open>Scanning twice\<close>

lemma ev_of_addEvidence:
  "ev_of (st\<lparr>evidenceMap := addEvidence (evidenceMap st) p e\<rparr>) d =
     ev_of st d @ (if d = p then [e] else [])"
  by (simp add: ev_of_def addEvidence_def Let_def)

lemma ev_of_sideMap_update [simp]: "ev_of (st\<lparr>sideMap := m\<rparr>) d = ev_of st d"
  by (simp add: ev_of_def)

lemma ev_of_disk_update [simp]: "ev_of (st\<lparr>disk := x\<rparr>) d = ev_of st d"
  by (simp add: ev_of_def)

lemma replay_names_Cons:
  "replay_names f flag (p # pkgs) st =
     replay_names f flag pkgs
       (st\<lparr>evidenceMap := addEvidence (evidenceMap st) p (cached_entry f),
           sideMap := updateSideMap (sideMap st) p flag\<rparr>)"
  by (simp add: replay_names_def cached_entry_def)

lemma replay_names_fold:
  "ev_of (replay_names f flag pkgs st) d
     = ev_of st d @ replicate (count_list pkgs d) (cached_entry f) \<and>
   sideMap (replay_names f flag pkgs st)
     = fold (\<lambda>pkg m. updateSideMap m pkg flag) pkgs (sideMap st) \<and>
   disk (replay_names f flag pkgs st) = disk st"
proof (induction pkgs arbitrary: st)
  case Nil
  show ?case by (simp add: replay_names_def)
next
  case (Cons p pkgs)
  let ?st = "st\<lparr>evidenceMap := addEvidence (evidenceMap st) p (cached_entry f),
                 sideMap := updateSideMap (sideMap st) p flag\<rparr>"
  have e: "ev_of ?st d = ev_of st d @ (if d = p then [cached_entry f] else [])"
    by (simp add: ev_of_def addEvidence_def Let_def)
  show ?case
    unfolding replay_names_Cons using Cons [of ?st] e by (simp add: replicate_app_Cons_same)
qed

lemma replay_names_ev:
  "ev_of (replay_names f flag pkgs st) d =
     ev_of st d @ replicate (count_list pkgs d) (cached_entry f)"
  by (rule replay_names_fold [THEN conjunct1])

lemma replay_names_sideMap:
  "sideMap (replay_names f flag pkgs st) =
     fold (\<lambda>pkg m. updateSideMap m pkg flag) pkgs (sideMap st)"
  by (rule replay_names_fold [THEN conjunct2, THEN conjunct1])

lemma replay_names_disk: "disk (replay_names f flag pkgs st) = disk st"
  by (rule replay_names_fold [THEN conjunct2, THEN conjunct2])

lemma replay_cached_Normal:
  "replay_cached f c st = Normal st' \<longleftrightarrow>
     (\<exists>pkgs. c_imports c = Some pkgs \<and> st' = replay_names f (c_isClient c) pkgs st)"
  by (cases "c_imports c") (auto simp: replay_cached_def)

lemma record_import_fold:
  "fold (record_import f names content isClient) imps (st, acc) =
     (st\<lparr>evidenceMap := evidenceMap (fst (fold (record_import f names content isClient) imps (st, acc))),
         sideMap := fold (\<lambda>pkg m. updateSideMap m pkg (Some isClient))
                      (declared_imports names imps) (sideMap st)\<rparr>,
      fold (\<lambda>pkg found. Set_add found pkg) (declared_imports names imps) acc)"
proof (induction imps arbitrary: st acc)
  case Nil
  show ?case by (simp add: declared_imports_def)
next
  case (Cons imp imps)
  show ?case
  proof (cases "packageName imp \<in> set names")
    case True
    let ?st = "st\<lparr>evidenceMap :=
                 addEvidence (evidenceMap st) (packageName imp)
                   \<lparr>e_file = f, e_line = Some (p_line imp), e_type = p_type imp,
                    e_snippet = Some (extractSnippet content (p_line imp))\<rparr>,
               sideMap := updateSideMap (sideMap st) (packageName imp) (Some isClient)\<rparr>"
    have step: "record_import f names content isClient imp (st, acc) =
        (?st, Set_add acc (packageName imp))"
      using True by (simp add: record_import_def)
    have d: "declared_imports names (imp # imps) = packageName imp # declared_imports names imps"
      using True by (simp add: declared_imports_def)
    show ?thesis
      unfolding fold_simps step d
      by (subst Cons.IH) simp
  next
    case False
    have step: "record_import f names content isClient imp (st, acc) = (st, acc)"
      using False by (simp add: record_import_def)
    have d: "declared_imports names (imp # imps) = declared_imports names imps"
      using False by (simp add: declared_imports_def)
    show ?thesis
      unfolding fold_simps step d by (rule Cons.IH)
  qed
qed

lemma record_import_fold_ev:
  "ev_of (fst (fold (record_import f names content isClient) imps (st, acc))) d =
     ev_of st d @ map (parsed_entry f content)
                    (filter (\<lambda>imp. packageName imp = d \<and> d \<in> set names) imps)"
proof (induction imps arbitrary: st acc)
  case Nil
  show ?case by simp
next
  case (Cons imp imps)
  show ?case
  proof (cases "packageName imp \<in> set names")
    case True
    let ?st = "st\<lparr>evidenceMap :=
                 addEvidence (evidenceMap st) (packageName imp)
                   \<lparr>e_file = f, e_line = Some (p_line imp), e_type = p_type imp,
                    e_snippet = Some (extractSnippet content (p_line imp))\<rparr>,
               sideMap := updateSideMap (sideMap st) (packageName imp) (Some isClient)\<rparr>"
    have step: "record_import f names content isClient imp (st, acc) =
        (?st, Set_add acc (packageName imp))"
      using True by (simp add: record_import_def)
    have e: "ev_of ?st d = ev_of st d @ (if d = packageName imp then [parsed_entry f content imp] else [])"
      by (simp add: ev_of_def addEvidence_def Let_def parsed_entry_def)
    show ?thesis
      unfolding fold_simps step Cons.IH e using True by auto
  next
    case False
    have step: "record_import f names content isClient imp (st, acc) = (st, acc)"
      using False by (simp add: record_import_def)
    show ?thesis
      unfolding fold_simps step Cons.IH using False by auto
  qed
qed

lemma record_import_fold_disk:
  "disk (fst (fold (record_import f names content isClient) imps (st, acc))) = disk st"
  by (subst record_import_fold) simp

lemma mark_sides_step:
  "mark_sides S flag (updateSideMap m x flag) = mark_sides (insert x S) flag m"
  by (rule ext) (simp add: mark_sides_def updateSideMap_def Let_def)

lemma fold_updateSideMap:
  "fold (\<lambda>pkg m. updateSideMap m pkg flag) xs m = mark_sides (set xs) flag m"
proof (induction xs arbitrary: m)
  case Nil
  show ?case by (rule ext) (simp add: mark_sides_def)
next
  case (Cons x xs)
  show ?case by (simp add: Cons mark_sides_step)
qed

lemma found_packages_set:
  "set (found_packages pf f names content) = set (declared_imports names (parseFile pf content f))"
  by (simp add: found_packages_def set_fold_Set_add_plain)

lemma found_packages_distinct: "distinct (found_packages pf f names content)"
  by (simp add: found_packages_def distinct_fold_Set_add_plain)

lemma found_packages_count:
  "count_list (found_packages pf f names content) d =
     (if d \<in> set (declared_imports names (parseFile pf content f)) then 1 else 0)"
proof -
  have "distinct xs \<Longrightarrow> count_list xs d = (if d \<in> set xs then 1 else 0)" for xs :: "string list"
    by (induction xs) auto
  from this [OF found_packages_distinct [of pf f names content]] show ?thesis
    by (simp add: found_packages_set)
qed

lemma stageB_try_readable:
  assumes "files (disk st) f = Some content"
  shows "stageB_try pf cache f names stats st =
           Normal (stageB_state pf cache f names content stats st)"
proof -
  obtain st' found where
    fold: "fold (record_import f names content (detectUseClient content))
             (parseFile pf content f) (st, []) = (st', found)"
    by (cases "fold (record_import f names content (detectUseClient content))
             (parseFile pf content f) (st, [])") blast
  have found: "found = found_packages pf f names content"
    using fold record_import_fold [of f names content "detectUseClient content"
        "parseFile pf content f" st "[]"]
    by (simp add: found_packages_def)
  show ?thesis
    using assms fold found
    by (simp add: stageB_try_def stageB_state_def stageB_entry_def Let_def split: option.split)
qed

lemma stageB_state_ev:
  "ev_of (stageB_state pf cache f names content stats st) d =
     ev_of st d @ map (parsed_entry f content)
       (filter (\<lambda>imp. packageName imp = d \<and> d \<in> set names) (parseFile pf content f))"
  by (simp add: stageB_state_def Let_def record_import_fold_ev split: option.split)

lemma stageB_state_sideMap:
  "sideMap (stageB_state pf cache f names content stats st) =
     mark_sides (set (declared_imports names (parseFile pf content f)))
       (Some (detectUseClient content)) (sideMap st)"
proof -
  have "sideMap (fst (fold (record_import f names content (detectUseClient content))
                       (parseFile pf content f) (st, []))) =
        mark_sides (set (declared_imports names (parseFile pf content f)))
          (Some (detectUseClient content)) (sideMap st)"
    by (subst record_import_fold) (simp add: fold_updateSideMap)
  then show ?thesis by (simp add: stageB_state_def Let_def split: option.split)
qed

lemma stageB_state_disk:
  "disk (stageB_state pf cache f names content stats st) =
     (case stats of
        None \<Rightarrow> disk st
      | Some mtime \<Rightarrow> CacheManager_set pf cache (disk st) f (stageB_entry pf f names content mtime))"
  by (simp add: stageB_state_def Let_def record_import_fold_disk split: option.split)

lemma processFile_hit:
  assumes "CacheManager_get pf cache (disk st) f = Inr (Some c)"
  shows "processFile pf cache f names st = replay_cached f c st"
proof -
  have "mtimes (disk st) f = Some (c_mtime c)"
    using assms by (simp add: CacheManager_get_Some_iff)
  with assms show ?thesis by (simp add: processFile_def getFileStats_def Let_def)
qed

lemma processFile_skip:
  assumes "CacheManager_get pf cache (disk st) f = Inr None"
    and "fastScan (disk st) f names = []"
  shows "processFile pf cache f names st = Normal st"
  using assms by (simp add: processFile_def Let_def)

lemma processFile_stageB:
  assumes "CacheManager_get pf cache (disk st) f = Inr None"
    and "fastScan (disk st) f names \<noteq> []"
    and "files (disk st) f = Some content"
  shows "processFile pf cache f names st =
           Normal (stageB_state pf cache f names content (mtimes (disk st) f) st)"
  using assms stageB_try_readable [OF assms(3), of pf cache names "mtimes (disk st) f"]
  by (simp add: processFile_def getFileStats_def Let_def)

lemma fastScan_candidates_readable:
  "fastScan fs f names \<noteq> [] \<Longrightarrow> \<exists>content. files fs f = Some content"
  using fastScan_unreadable [of fs f names] by (cases "files fs f") auto

lemma CacheManager_get_cong:
  assumes "cache_files b (getCacheFilePath pf cache f) = cache_files a (getCacheFilePath pf cache f)"
    and "mtimes b f = mtimes a f"
  shows "CacheManager_get pf cache b f = CacheManager_get pf cache a f"
  using assms
  by (simp add: CacheManager_get_def CacheManager_get_try_def Let_def
      split: option.split cache_file.split)

lemma CacheManager_set_same_files: "same_files a (CacheManager_set pf cache a f e)"
  by (simp add: CacheManager_set_def same_files_def Let_def)

lemma CacheManager_set_other:
  "p \<noteq> getCacheFilePath pf cache f \<Longrightarrow>
     cache_files (CacheManager_set pf cache a f e) p = cache_files a p"
  by (simp add: CacheManager_set_def Let_def)

lemma CacheManager_set_cases:
  obtains (written) "enabled cache" "write_ok a (getCacheFilePath pf cache f)"
      "cache_files (CacheManager_set pf cache a f e) (getCacheFilePath pf cache f) = Some (Stored e)"
  | (unchanged) "\<not> (enabled cache \<and> write_ok a (getCacheFilePath pf cache f))"
      "CacheManager_set pf cache a f e = a"
  by (cases "enabled cache \<and> write_ok a (getCacheFilePath pf cache f)")
    (auto simp: CacheManager_set_def Let_def)

lemma CacheManager_set_unchanged_cong:
  assumes "\<not> (enabled cache \<and> write_ok a (getCacheFilePath pf cache f))"
    and "write_ok b = write_ok a"
  shows "CacheManager_set pf cache b f e = b"
  using assms by (auto simp: CacheManager_set_def Let_def)

lemma fastScan_cong: "files b = files a \<Longrightarrow> fastScan b f names = fastScan a f names"
  by (simp add: fastScan_def)

subsubsection \<open>The evidence types of a parsed file\<close>

lemma top_weight_static: "top_weight ''static_import''"
  by (simp add: top_weight_def)

lemma push_import_types:
  assumes "list_all (\<lambda>i. top_weight (p_type i)) imps" and "top_weight t"
  shows "list_all (\<lambda>i. top_weight (p_type i)) (collected (push_import node v t flag imps))"
  using assms by (simp add: push_import_def collected_def split: sum.split)

lemma and_then_types:
  assumes "list_all P (collected c)"
    and "\<And>s. list_all P s \<Longrightarrow> list_all P (collected (g s))"
  shows "list_all P (collected (and_then c g))"
  using assms by (cases c) (simp_all add: and_then_def collected_def)

lemma own_imports_types:
  assumes "map_of kvs ''importKind'' = None"
    and "map_of kvs ''type'' \<noteq> Some (JStr ''ImportExpression'')"
    and ok: "list_all (\<lambda>i. top_weight (p_type i)) imps"
  shows "list_all (\<lambda>i. top_weight (p_type i)) (collected (own_imports (JObj kvs) imps))"
proof -
  let ?P = "\<lambda>i. top_weight (p_type i)"
  let ?node = "JObj kvs"
  have kind: "get_prop ?node ''importKind'' \<noteq> JStr ''type''"
    using assms(1) by simp
  have ty: "get_prop ?node ''type'' \<noteq> JStr ''ImportExpression''"
    using assms(2) by (auto split: option.split)
  have same: "list_all ?P (collected (Normal s))" if "list_all ?P s" for s
    using that by (simp add: collected_def)
  have 1: "list_all ?P (collected (handle_import ?node s))" if s: "list_all ?P s" for s
  proof -
    have "handle_import ?node s =
            push_import ?node (source_value ?node) ''static_import'' (Some False) s \<or>
          handle_import ?node s = Normal s"
      using kind by (simp add: handle_import_def)
    then show ?thesis
    proof
      assume h: "handle_import ?node s =
            push_import ?node (source_value ?node) ''static_import'' (Some False) s"
      show ?thesis unfolding h by (rule push_import_types [OF s top_weight_static])
    next
      assume h: "handle_import ?node s = Normal s"
      show ?thesis unfolding h by (rule same [OF s])
    qed
  qed
  have 2: "list_all ?P (collected (handle_export ?node s))" if s: "list_all ?P s" for s
  proof -
    have "handle_export ?node s =
            push_import ?node (source_value ?node) ''export_from'' None s \<or>
          handle_export ?node s = Normal s"
      by (simp add: handle_export_def)
    then show ?thesis
    proof
      assume h: "handle_export ?node s =
            push_import ?node (source_value ?node) ''export_from'' None s"
      have "top_weight ''export_from''" by (simp add: top_weight_def)
      from push_import_types [OF s this] show ?thesis unfolding h .
    next
      assume h: "handle_export ?node s = Normal s"
      show ?thesis unfolding h by (rule same [OF s])
    qed
  qed
  have 3: "list_all ?P (collected (handle_dynamic ?node s))" if s: "list_all ?P s" for s
  proof -
    have h: "handle_dynamic ?node s = Normal s" using ty by (simp add: handle_dynamic_def)
    show ?thesis unfolding h by (rule same [OF s])
  qed
  have 4: "list_all ?P (collected (handle_require ?node s))" if s: "list_all ?P s" for s
  proof -
    have "handle_require ?node s =
            push_import ?node (require_argument ?node) ''require'' None s \<or>
          handle_require ?node s = Normal s"
      by (simp add: handle_require_def)
    then show ?thesis
    proof
      assume h: "handle_require ?node s =
            push_import ?node (require_argument ?node) ''require'' None s"
      have "top_weight ''require''" by (simp add: top_weight_def)
      from push_import_types [OF s this] show ?thesis unfolding h .
    next
      assume h: "handle_require ?node s = Normal s"
      show ?thesis unfolding h by (rule same [OF s])
    qed
  qed
  show ?thesis
    unfolding own_imports_def
    by (intro and_then_types 1 2 3 4 ok)
qed

lemma walk_types:
  "swc_node node \<Longrightarrow> list_all (\<lambda>i. top_weight (p_type i)) imps \<Longrightarrow>
     list_all (\<lambda>i. top_weight (p_type i)) (collected (extractImportsFromAST node imps))"
  "swc_properties kvs \<Longrightarrow> list_all (\<lambda>i. top_weight (p_type i)) imps1 \<Longrightarrow>
     list_all (\<lambda>i. top_weight (p_type i)) (collected (traverse_properties kvs imps1))"
  "swc_elements xs \<Longrightarrow> list_all (\<lambda>i. top_weight (p_type i)) imps2 \<Longrightarrow>
     list_all (\<lambda>i. top_weight (p_type i)) (collected (traverse_elements xs imps2))"
  "swc_node v \<Longrightarrow> list_all (\<lambda>i. top_weight (p_type i)) imps3 \<Longrightarrow>
     list_all (\<lambda>i. top_weight (p_type i)) (collected (visit_value v imps3))"
  "swc_elements ys \<Longrightarrow> list_all (\<lambda>i. top_weight (p_type i)) imps4 \<Longrightarrow>
     list_all (\<lambda>i. top_weight (p_type i)) (collected (forEach_child ys imps4))"
proof (induction node imps and kvs imps1 and xs imps2 and v imps3 and ys imps4
    rule: extractImportsFromAST_traverse_properties_traverse_elements_visit_value_forEach_child.induct)
  case (1 kvs imps0)
  have own: "list_all (\<lambda>i. top_weight (p_type i)) (collected (own_imports (JObj kvs) imps0))"
    using 1(2,3) by (intro own_imports_types) simp_all
  show ?case
  proof (cases "own_imports (JObj kvs) imps0")
    case (Normal i)
    with own have "list_all (\<lambda>i. top_weight (p_type i)) i" by (simp add: collected_def)
    from 1(1) [OF Normal _ this] 1(2) Normal show ?thesis by simp
  next
    case (Abrupt e i)
    with own show ?thesis by (simp add: collected_def)
  qed
next
  case (9 key v rest imps0)
  show ?case
  proof (cases "key = ''span'' \<or> key = ''parent''")
    case True
    with 9(1) [OF True] 9(4,5) show ?thesis by simp
  next
    case False
    have v: "list_all (\<lambda>i. top_weight (p_type i)) (collected (visit_value v imps0))"
      using 9(2) [OF False] 9(4,5) by simp
    show ?thesis
    proof (cases "visit_value v imps0")
      case (Normal i)
      with v have "list_all (\<lambda>i. top_weight (p_type i)) i" by (simp add: collected_def)
      from 9(3) [OF False Normal _ this] 9(4) False Normal show ?thesis by simp
    next
      case (Abrupt e i)
      with v False show ?thesis by (simp add: collected_def)
    qed
  qed
next
  case (11 v rest imps0)
  have v: "list_all (\<lambda>i. top_weight (p_type i)) (collected (visit_value v imps0))"
    using 11(1) 11(3,4) by simp
  show ?case
  proof (cases "visit_value v imps0")
    case (Normal i)
    with v have "list_all (\<lambda>i. top_weight (p_type i)) i" by (simp add: collected_def)
    from 11(2) [OF Normal _ this] 11(3) Normal show ?thesis by simp
  next
    case (Abrupt e i)
    with v show ?thesis by (simp add: collected_def)
  qed
next
  case (20 child rest imps0)
  have v: "list_all (\<lambda>i. top_weight (p_type i)) (collected (extractImportsFromAST child imps0))"
    using 20(1) 20(3,4) by simp
  show ?case
  proof (cases "extractImportsFromAST child imps0")
    case (Normal i)
    with v have "list_all (\<lambda>i. top_weight (p_type i)) i" by (simp add: collected_def)
    from 20(2) [OF Normal _ this] 20(3) Normal show ?thesis by simp
  next
    case (Abrupt e i)
    with v show ?thesis by (simp add: collected_def)
  qed
qed (simp_all add: collected_def)

lemma parseFile_types:
  assumes "swc_trees pf"
  shows "list_all (\<lambda>i. top_weight (p_type i)) (parseFile pf content f)"
proof -
  let ?options = "\<lparr>o_syntax = (if endsWith f ''.ts'' \<or> endsWith f ''.tsx''
                           then ''typescript'' else ''ecmascript''),
              o_tsx = endsWith f ''.tsx'', o_jsx = endsWith f ''.jsx'', o_target = ''es2022''\<rparr>"
  show ?thesis
  proof (cases "parseSync pf content ?options")
    case None
    then show ?thesis by (simp add: parseFile_def)
  next
    case (Some ast)
    with assms have "swc_node ast" unfolding swc_trees_def by blast
    from walk_types(1) [OF this, of "[]"]
    have "list_all (\<lambda>i. top_weight (p_type i)) (collected (extractImportsFromAST ast []))"
      by simp
    with Some show ?thesis by (simp add: parseFile_def collected_def split: completion.split)
  qed
qed

subsubsection \<open>One file in both scans\<close>

lemma evidence_rerun_refl: "evidence_rerun es es"
  by (simp add: evidence_rerun_def)

lemma evidence_rerun_append:
  assumes "evidence_rerun a b" and "evidence_rerun x y"
  shows "evidence_rerun (a @ x) (b @ y)"
  using assms unfolding evidence_rerun_def by (auto simp: image_Un)

lemma evidence_rerun_cached:
  "evidence_rerun
     (map (parsed_entry f content) (filter (\<lambda>imp. packageName imp = d \<and> d \<in> set names) imps))
     (replicate (if d \<in> set (declared_imports names imps) then 1 else 0) (cached_entry f))"
proof -
  let ?xs = "filter (\<lambda>imp. packageName imp = d \<and> d \<in> set names) imps"
  have iff: "d \<in> set (declared_imports names imps) \<longleftrightarrow> ?xs \<noteq> []"
    by (auto simp: declared_imports_def filter_empty_conv)
  show ?thesis
  proof (cases "?xs = []")
    case True
    with iff show ?thesis by (simp add: evidence_rerun_def)
  next
    case False
    then obtain x xs' where xs: "?xs = x # xs'" by (cases ?xs) auto
    have files: "e_file ` set (map (parsed_entry f content) ?xs) = {f}"
      unfolding xs by (auto simp: parsed_entry_def)
    have c: "e_file (cached_entry f) = f" by (simp add: cached_entry_def)
    have len: "1 \<le> length ?xs" unfolding xs by simp
    from False iff have d: "d \<in> set (declared_imports names imps)" by simp
    show ?thesis
      unfolding evidence_rerun_def using False files c len d by simp
  qed
qed

lemma top_weight_cached: "top_weight (e_type (cached_entry f))"
  by (simp add: cached_entry_def top_weight_def)

lemma top_weight_parsed:
  assumes "list_all (\<lambda>i. top_weight (p_type i)) imps"
  shows "list_all (\<lambda>e. top_weight (e_type e)) (map (parsed_entry f content) (filter P imps))"
  using assms by (induction imps) (simp_all add: parsed_entry_def)

lemma state_rerunI:
  assumes "sideMap st2 = sideMap st1"
    and "\<And>d. evidence_rerun (ev_of st1 d) (ev_of st2 d)"
    and "\<And>d. list_all (\<lambda>e. top_weight (e_type e)) (ev_of st1 d)"
    and "\<And>d. list_all (\<lambda>e. top_weight (e_type e)) (ev_of st2 d)"
  shows "state_rerun st1 st2"
  using assms by (simp add: state_rerun_def)

lemma state_rerun_sideMap: "state_rerun st1 st2 \<Longrightarrow> sideMap st2 = sideMap st1"
  by (simp add: state_rerun_def)

lemma state_rerun_ev: "state_rerun st1 st2 \<Longrightarrow> evidence_rerun (ev_of st1 d) (ev_of st2 d)"
  by (simp add: state_rerun_def)

lemma state_rerun_weight1:
  "state_rerun st1 st2 \<Longrightarrow> list_all (\<lambda>e. top_weight (e_type e)) (ev_of st1 d)"
  by (simp add: state_rerun_def)

lemma state_rerun_weight2:
  "state_rerun st1 st2 \<Longrightarrow> list_all (\<lambda>e. top_weight (e_type e)) (ev_of st2 d)"
  by (simp add: state_rerun_def)

lemma state_rerun_refl:
  "(\<And>d. list_all (\<lambda>e. top_weight (e_type e)) (ev_of st d)) \<Longrightarrow> state_rerun st st"
  by (simp add: state_rerun_def evidence_rerun_refl)

lemma replay_weight:
  assumes "list_all (\<lambda>e. top_weight (e_type e)) (ev_of st d)"
  shows "list_all (\<lambda>e. top_weight (e_type e)) (ev_of (replay_names f flag pkgs st) d)"
  using assms by (auto simp: replay_names_ev top_weight_cached list_all_iff)

lemma stageB_weight:
  assumes "swc_trees pf" and "list_all (\<lambda>e. top_weight (e_type e)) (ev_of st d)"
  shows "list_all (\<lambda>e. top_weight (e_type e))
           (ev_of (stageB_state pf cache f names content stats st) d)"
  using assms(2) top_weight_parsed [OF parseFile_types [OF assms(1)]]
  by (simp add: stageB_state_ev)

lemma rerun_file:
  assumes swc: "swc_trees pf"
    and p1: "processFile pf cache f names st1 = Normal st1'"
    and sf: "same_files (disk st1) (disk st2)"
    and cf: "cache_files (disk st2) (getCacheFilePath pf cache f) =
             cache_files (disk st1') (getCacheFilePath pf cache f)"
    and R: "state_rerun st1 st2"
  shows "\<exists>st2'. processFile pf cache f names st2 = Normal st2' \<and> disk st2' = disk st2 \<and>
           state_rerun st1' st2'"
proof -
  let ?cp = "getCacheFilePath pf cache f"
  have mt: "mtimes (disk st2) = mtimes (disk st1)" and fl: "files (disk st2) = files (disk st1)"
    and wo: "write_ok (disk st2) = write_ok (disk st1)"
    using sf by (simp_all add: same_files_def)
  have sm: "sideMap st2 = sideMap st1" using R by (rule state_rerun_sideMap)
  note w1 = state_rerun_weight1 [OF R] and w2 = state_rerun_weight2 [OF R]
  consider (hit) c where "CacheManager_get pf cache (disk st1) f = Inr (Some c)"
    | (miss) "CacheManager_get pf cache (disk st1) f = Inr None"
    using CacheManager_get_cases [of pf cache "disk st1" f] by blast
  then show ?thesis
  proof cases
    case hit
    from processFile_hit [OF hit, of names] p1
    have "replay_cached f c st1 = Normal st1'" by simp
    then obtain pkgs where pkgs: "c_imports c = Some pkgs"
      and s1: "st1' = replay_names f (c_isClient c) pkgs st1"
      unfolding replay_cached_Normal by blast
    have "disk st1' = disk st1" unfolding s1 by (simp add: replay_names_disk)
    with cf have "cache_files (disk st2) ?cp = cache_files (disk st1) ?cp" by simp
    then have "CacheManager_get pf cache (disk st2) f = Inr (Some c)"
      using CacheManager_get_cong [of "disk st2" pf cache f "disk st1"] mt hit by simp
    then have "processFile pf cache f names st2 = replay_cached f c st2"
      by (rule processFile_hit)
    then have p2: "processFile pf cache f names st2
        = Normal (replay_names f (c_isClient c) pkgs st2)"
      using pkgs by (simp add: replay_cached_def)
    have "state_rerun st1' (replay_names f (c_isClient c) pkgs st2)"
    proof (rule state_rerunI)
      show "sideMap (replay_names f (c_isClient c) pkgs st2) = sideMap st1'"
        unfolding s1 by (simp add: replay_names_sideMap sm)
      show "evidence_rerun (ev_of st1' d) (ev_of (replay_names f (c_isClient c) pkgs st2) d)"
        for d
        unfolding s1 replay_names_ev
        by (intro evidence_rerun_append state_rerun_ev [OF R] evidence_rerun_refl)
      show "list_all (\<lambda>e. top_weight (e_type e)) (ev_of st1' d)" for d
        unfolding s1 by (rule replay_weight [OF w1])
      show "list_all (\<lambda>e. top_weight (e_type e))
              (ev_of (replay_names f (c_isClient c) pkgs st2) d)" for d
        by (rule replay_weight [OF w2])
    qed
    with p2 show ?thesis by (simp add: replay_names_disk)
  next
    case miss
    show ?thesis
    proof (cases "fastScan (disk st1) f names = []")
      case True
      have s1: "st1' = st1" using processFile_skip [OF miss True] p1 by simp
      with cf have "cache_files (disk st2) ?cp = cache_files (disk st1) ?cp" by simp
      then have g2: "CacheManager_get pf cache (disk st2) f = Inr None"
        using CacheManager_get_cong [of "disk st2" pf cache f "disk st1"] mt miss by simp
      have "fastScan (disk st2) f names = []" using True fastScan_cong [OF fl] by simp
      from processFile_skip [OF g2 this] R s1 show ?thesis by simp
    next
      case False
      then obtain content where content: "files (disk st1) f = Some content"
        using fastScan_candidates_readable by blast
      have s1: "st1' = stageB_state pf cache f names content (mtimes (disk st1) f) st1"
        using processFile_stageB [OF miss False content] p1 by simp
      have cand2: "fastScan (disk st2) f names \<noteq> []" using False fastScan_cong [OF fl] by simp
      have content2: "files (disk st2) f = Some content" using content fl by simp
      have w1': "list_all (\<lambda>e. top_weight (e_type e)) (ev_of st1' d)" for d
        unfolding s1 by (rule stageB_weight [OF swc w1])
      have same_step: ?thesis
        if unch: "disk st1' = disk st1"
          and nowrite: "\<And>m e. mtimes (disk st1) f = Some m \<Longrightarrow>
                 CacheManager_set pf cache (disk st2) f e = disk st2"
      proof -
        from cf unch have "cache_files (disk st2) ?cp = cache_files (disk st1) ?cp" by simp
        then have g2: "CacheManager_get pf cache (disk st2) f = Inr None"
          using CacheManager_get_cong [of "disk st2" pf cache f "disk st1"] mt miss by simp
        let ?st2' = "stageB_state pf cache f names content (mtimes (disk st2) f) st2"
        have p2: "processFile pf cache f names st2 = Normal ?st2'"
          by (rule processFile_stageB [OF g2 cand2 content2])
        have d2: "disk ?st2' = disk st2"
          using nowrite by (simp add: stageB_state_disk mt split: option.split)
        have "state_rerun st1' ?st2'"
        proof (rule state_rerunI)
          show "sideMap ?st2' = sideMap st1'"
            unfolding s1 by (simp add: stageB_state_sideMap sm)
          show "evidence_rerun (ev_of st1' d) (ev_of ?st2' d)" for d
            unfolding s1 stageB_state_ev
            by (intro evidence_rerun_append state_rerun_ev [OF R] evidence_rerun_refl)
          show "list_all (\<lambda>e. top_weight (e_type e)) (ev_of st1' d)" for d by (rule w1')
          show "list_all (\<lambda>e. top_weight (e_type e)) (ev_of ?st2' d)" for d
            by (rule stageB_weight [OF swc w2])
        qed
        with p2 d2 show ?thesis by blast
      qed
      show ?thesis
      proof (cases "mtimes (disk st1) f")
        case None
        have "disk st1' = disk st1" unfolding s1 by (simp add: stageB_state_disk None)
        then show ?thesis using None by (intro same_step) simp_all
      next
        case (Some m)
        let ?E = "stageB_entry pf f names content m"
        let ?found = "found_packages pf f names content"
        have stored: "c_imports ?E = Some ?found" by (simp add: stageB_entry_def)
        have d1: "disk st1' = CacheManager_set pf cache (disk st1) f ?E"
          unfolding s1 by (simp add: stageB_state_disk Some)
        show ?thesis
        proof (rule CacheManager_set_cases [of cache "disk st1" pf f ?E])
          assume en: "enabled cache"
            and "cache_files (CacheManager_set pf cache (disk st1) f ?E) ?cp = Some (Stored ?E)"
          with cf d1 have "cache_files (disk st2) ?cp = Some (Stored ?E)" by simp
          moreover have "mtimes (disk st2) f = Some (c_mtime ?E)"
            using Some mt by (simp add: stageB_entry_def)
          ultimately have "CacheManager_get pf cache (disk st2) f = Inr (Some ?E)"
            using en by (simp add: CacheManager_get_Some_iff)
          then have "processFile pf cache f names st2 = replay_cached f ?E st2"
            by (rule processFile_hit)
          then have p2: "processFile pf cache f names st2
              = Normal (replay_names f (c_isClient ?E) ?found st2)"
            using stored by (simp add: replay_cached_def)
          have "state_rerun st1' (replay_names f (c_isClient ?E) ?found st2)"
          proof (rule state_rerunI)
            show "sideMap (replay_names f (c_isClient ?E) ?found st2) = sideMap st1'"
              unfolding s1
              by (simp add: replay_names_sideMap stageB_state_sideMap sm fold_updateSideMap
                  stageB_entry_def found_packages_set)
            show "evidence_rerun (ev_of st1' d)
                    (ev_of (replay_names f (c_isClient ?E) ?found st2) d)" for d
            proof -
              have "count_list ?found d =
                  (if d \<in> set (declared_imports names (parseFile pf content f)) then 1 else 0)"
                by (rule found_packages_count)
              then show ?thesis
                unfolding s1 stageB_state_ev replay_names_ev
                using evidence_rerun_cached [of f content d names "parseFile pf content f"]
                by (intro evidence_rerun_append state_rerun_ev [OF R]) simp
            qed
            show "list_all (\<lambda>e. top_weight (e_type e)) (ev_of st1' d)" for d by (rule w1')
            show "list_all (\<lambda>e. top_weight (e_type e))
                    (ev_of (replay_names f (c_isClient ?E) ?found st2) d)" for d
              by (rule replay_weight [OF w2])
          qed
          with p2 show ?thesis by (simp add: replay_names_disk)
        next
          assume nw: "\<not> (enabled cache \<and> write_ok (disk st1) ?cp)"
            and "CacheManager_set pf cache (disk st1) f ?E = disk st1"
          with d1 have unch: "disk st1' = disk st1" by simp
          show ?thesis
          proof (rule same_step [OF unch])
            fix m' e
            show "CacheManager_set pf cache (disk st2) f e = disk st2"
              using nw wo by (intro CacheManager_set_unchanged_cong [of cache "disk st1"]) simp_all
          qed
        qed
      qed
    qed
  qed
qed

subsubsection \<open>All files\<close>

lemma same_files_refl: "same_files a a"
  by (simp add: same_files_def)

lemma same_files_trans: "same_files a b \<Longrightarrow> same_files b c \<Longrightarrow> same_files a c"
  by (simp add: same_files_def)

lemma processFile_disk:
  assumes "processFile pf cache f names st = Normal st'"
  shows "same_files (disk st) (disk st') \<and>
         (\<forall>p. p \<noteq> getCacheFilePath pf cache f \<longrightarrow>
              cache_files (disk st') p = cache_files (disk st) p)"
proof -
  consider (hit) c where "CacheManager_get pf cache (disk st) f = Inr (Some c)"
    | (miss) "CacheManager_get pf cache (disk st) f = Inr None"
    using CacheManager_get_cases [of pf cache "disk st" f] by blast
  then show ?thesis
  proof cases
    case hit
    from processFile_hit [OF hit, of names] assms
    have "replay_cached f c st = Normal st'" by simp
    then obtain pkgs where "st' = replay_names f (c_isClient c) pkgs st"
      unfolding replay_cached_Normal by blast
    then show ?thesis by (simp add: replay_names_disk same_files_refl)
  next
    case miss
    show ?thesis
    proof (cases "fastScan (disk st) f names = []")
      case True
      from processFile_skip [OF miss True] assms have "st' = st" by simp
      then show ?thesis by (simp add: same_files_refl)
    next
      case False
      then obtain content where content: "files (disk st) f = Some content"
        using fastScan_candidates_readable by blast
      from processFile_stageB [OF miss False content] assms
      have "st' = stageB_state pf cache f names content (mtimes (disk st) f) st" by simp
      then show ?thesis
        by (simp add: stageB_state_disk same_files_refl CacheManager_set_same_files
            CacheManager_set_other split: option.split)
    qed
  qed
qed

lemma processFiles_Cons_Normal:
  assumes "processFiles pf cache (f # fl) names st = Normal fin"
  obtains st' where "processFile pf cache f names st = Normal st'"
    and "processFiles pf cache fl names st' = Normal fin"
  using assms by (cases "processFile pf cache f names st") simp_all

lemma processFiles_disk:
  assumes "processFiles pf cache fl names st = Normal st'"
  shows "same_files (disk st) (disk st') \<and>
         (\<forall>p. p \<notin> getCacheFilePath pf cache ` set fl \<longrightarrow>
              cache_files (disk st') p = cache_files (disk st) p)"
  using assms
proof (induction fl arbitrary: st)
  case Nil
  then show ?case by (simp add: same_files_refl)
next
  case (Cons f fl)
  from Cons.prems obtain st1 where st1: "processFile pf cache f names st = Normal st1"
    and rest: "processFiles pf cache fl names st1 = Normal st'"
    by (rule processFiles_Cons_Normal)
  from processFile_disk [OF st1] Cons.IH [OF rest] show ?case
    by (auto intro: same_files_trans)
qed

lemma rerun_files:
  assumes "swc_trees pf"
    and "processFiles pf cache fl names st1 = Normal fin1"
    and "distinct fl"
    and "inj_on (getCacheFilePath pf cache) (set fl)"
    and "same_files (disk st1) (disk st2)"
    and "\<forall>f \<in> set fl. cache_files (disk st2) (getCacheFilePath pf cache f) =
                       cache_files (disk fin1) (getCacheFilePath pf cache f)"
    and "state_rerun st1 st2"
  shows "\<exists>fin2. processFiles pf cache fl names st2 = Normal fin2 \<and> disk fin2 = disk st2 \<and>
           state_rerun fin1 fin2"
  using assms(2-)
proof (induction fl arbitrary: st1 st2)
  case Nil
  then show ?case by simp
next
  case (Cons f fl)
  let ?cp = "getCacheFilePath pf cache"
  from Cons.prems(1) obtain st1' where p1: "processFile pf cache f names st1 = Normal st1'"
    and rest1: "processFiles pf cache fl names st1' = Normal fin1"
    by (rule processFiles_Cons_Normal)
  have notin: "?cp f \<notin> ?cp ` set fl"
    using Cons.prems(2,3) by (auto simp: inj_on_def)
  have "cache_files (disk fin1) (?cp f) = cache_files (disk st1') (?cp f)"
    using processFiles_disk [OF rest1] notin by blast
  with Cons.prems(5) have cf: "cache_files (disk st2) (?cp f) = cache_files (disk st1') (?cp f)"
    by simp
  from rerun_file [OF assms(1) p1 Cons.prems(4) cf Cons.prems(6)] obtain st2' where
    p2: "processFile pf cache f names st2 = Normal st2'" and d2: "disk st2' = disk st2"
    and R': "state_rerun st1' st2'" by blast
  have sf': "same_files (disk st1') (disk st2')"
    using processFile_disk [OF p1] Cons.prems(4) d2 by (auto simp: same_files_def)
  have cf': "\<forall>g \<in> set fl. cache_files (disk st2') (?cp g) = cache_files (disk fin1) (?cp g)"
    using Cons.prems(5) d2 by simp
  have dist: "distinct fl" and inj: "inj_on ?cp (set fl)"
    using Cons.prems(2,3) by (auto simp: inj_on_def)
  from Cons.IH [OF rest1 dist inj sf' cf' R'] obtain fin2 where
    "processFiles pf cache fl names st2' = Normal fin2" "disk fin2 = disk st2'"
    "state_rerun fin1 fin2" by blast
  with p2 d2 show ?case by simp
qed

subsubsection \<open>The results\<close>

lemma top_weight_spec: "top_weight t \<Longrightarrow> spec_weight t = 1 \<and> t \<notin> set Object_prototype_properties"
  by (auto simp: top_weight_def spec_weight_def Object_prototype_properties_def)

lemma top_weight_confidence:
  assumes "list_all (\<lambda>e. top_weight (e_type e)) es"
  shows "calculateConfidence es = Some (if es = [] then 0 else 1)"
proof (cases "es = []")
  case True
  then show ?thesis by simp
next
  case False
  have ok: "\<forall>e \<in> set es. e_type e \<notin> set Object_prototype_properties"
    using assms top_weight_spec by (auto simp: list_all_iff)
  have "(\<lambda>e. spec_weight (e_type e)) ` set es = {1}"
    using assms False top_weight_spec by (cases es) (auto simp: list_all_iff)
  moreover have "0 \<le> min ((real (length es) - 1) * (5/100)) (15/100 :: real)"
    using False by (cases es) simp_all
  ultimately show ?thesis
    unfolding calculateConfidence_closed [OF False ok] using False by (simp add: min_def)
qed

lemma top_weight_notes:
  assumes "list_all (\<lambda>e. top_weight (e_type e)) es"
  shows "generateNotes status es section =
     (if status = uncertain \<and> es = [] then [''No usage evidence found''] else [])
     @ (if section = peerDependencies
        then [''Peer dependency - do not remove without checking dependents''] else [])"
proof -
  have "filter (\<lambda>e. e_type e = t) es = []"
    if "\<not> top_weight t" for t
    using assms that by (auto simp: filter_empty_conv list_all_iff)
  moreover have "\<not> top_weight ''config_reference''" "\<not> top_weight ''string_reference''"
    "\<not> top_weight ''plugin_reference''"
    by (simp_all add: top_weight_def)
  ultimately show ?thesis by (simp add: generateNotes_def)
qed

lemma build_result_rerun:
  assumes "state_rerun st1 st2"
  shows "result_rerun (build_result options pkg st1 d) (build_result options pkg st2 d)"
proof -
  have sm: "sideMap st2 = sideMap st1" using assms by (rule state_rerun_sideMap)
  have ev: "evidence_rerun (ev_of st1 d) (ev_of st2 d)" using assms by (rule state_rerun_ev)
  then have empty: "ev_of st2 d = [] \<longleftrightarrow> ev_of st1 d = []" by (simp add: evidence_rerun_def)
  note w1 = state_rerun_weight1 [OF assms, of d] and w2 = state_rerun_weight2 [OF assms, of d]
  have c: "calculateConfidence (ev_of st2 d) = calculateConfidence (ev_of st1 d)"
    unfolding top_weight_confidence [OF w1] top_weight_confidence [OF w2] using empty by simp
  have n: "generateNotes status (ev_of st2 d) sec = generateNotes status (ev_of st1 d) sec"
    for status sec
    unfolding top_weight_notes [OF w1] top_weight_notes [OF w2] using empty by simp
  have b: "build_result options pkg st d =
      \<lparr>r_name = d,
       r_section = (case getDependencySection pkg d of None \<Rightarrow> dependencies | Some s \<Rightarrow> s),
       r_status = (case calculateConfidence (ev_of st d) of
                     None \<Rightarrow> uncertain
                   | Some c \<Rightarrow> classifyDependency c (opt_minConfidenceUnused options)
                                (opt_minConfidenceUsed options)),
       r_confidence = calculateConfidence (ev_of st d),
       r_side = determineUsageSide (case sideMap st d of None \<Rightarrow> Map.empty | Some s \<Rightarrow> s),
       r_evidence = ev_of st d,
       r_notes = generateNotes
                   (case calculateConfidence (ev_of st d) of
                      None \<Rightarrow> uncertain
                    | Some c \<Rightarrow> classifyDependency c (opt_minConfidenceUnused options)
                                 (opt_minConfidenceUsed options))
                   (ev_of st d)
                   (case getDependencySection pkg d of None \<Rightarrow> dependencies | Some s \<Rightarrow> s)\<rparr>"
    for st
    by (simp add: build_result_def Let_def ev_of_def)
  show ?thesis
    unfolding b result_rerun_def using sm ev c n by simp
qed

lemma readPackageJson_cong:
  "files b = files a \<Longrightarrow> readPackageJson pf b path = readPackageJson pf a path"
  by (simp add: readPackageJson_def)

lemma rerun_scan:
  assumes run1: "runScan pf now options fs = Inr (r1, fs1)"
    and found: "findFiles pf options fs = Inr fl"
    and found2: "findFiles pf options fs1 = Inr fl"
    and dist: "distinct fl"
    and inj: "inj_on (getCacheFilePath pf (scan_cache pf options)) (set fl)"
    and swc: "swc_trees pf"
  shows "\<exists>r2. runScan pf now' options fs1 = Inr (r2, fs1) \<and>
           list_all2 result_rerun (s_packages r1) (s_packages r2)"
proof (rule runScan_returned [OF run1])
  fix pkg fl' fin1
  let ?init = "\<lambda>fs. \<lparr>evidenceMap = Map.empty, sideMap = Map.empty, disk = fs\<rparr>"
  assume pkg: "readPackageJson pf fs (manifest_path pf options) = Inr pkg"
    and fl': "findFiles pf options fs = Inr fl'"
    and p1': "processFiles pf (scan_cache pf options) fl' (getAllDependencyNames pkg) (?init fs)
               = Normal fin1"
    and r1: "r1 = scan_result options now pkg fin1" and fs1: "fs1 = disk fin1"
  from fl' found have "fl' = fl" by simp
  with p1' have p1: "processFiles pf (scan_cache pf options) fl (getAllDependencyNames pkg)
      (?init fs) = Normal fin1" by simp
  have sf: "same_files (disk (?init fs)) (disk (?init fs1))"
    using processFiles_disk [OF p1] fs1 by simp
  then have pkg2: "readPackageJson pf fs1 (manifest_path pf options) = Inr pkg"
    using pkg readPackageJson_cong [of fs1 fs pf] by (simp add: same_files_def)
  have cf: "\<forall>f \<in> set fl.
      cache_files (disk (?init fs1)) (getCacheFilePath pf (scan_cache pf options) f) =
      cache_files (disk fin1) (getCacheFilePath pf (scan_cache pf options) f)"
    using fs1 by simp
  have R0: "state_rerun (?init fs) (?init fs1)"
    by (simp add: state_rerun_def ev_of_def evidence_rerun_refl)
  from rerun_files [OF swc p1 dist inj sf cf R0] obtain fin2 where
    p2: "processFiles pf (scan_cache pf options) fl (getAllDependencyNames pkg) (?init fs1)
           = Normal fin2"
    and d2: "disk fin2 = fs1" and R: "state_rerun fin1 fin2" by auto
  have run2: "runScan pf now' options fs1 = Inr (scan_result options now' pkg fin2, fs1)"
    using runScan_success [OF pkg2 found2 p2, of now'] d2 by simp
  have "list_all2 result_rerun (s_packages r1) (s_packages (scan_result options now' pkg fin2))"
    unfolding r1
    by (simp add: scan_result_def Let_def list_all2_map1 list_all2_map2 list_all2_same
        build_result_rerun [OF R])
  with run2 show ?thesis by blast
qed

text \<open>
  Claim C3 as stated fails. In the project \<open>ex2_fs\<close> the first scan, with an empty cache,
  records for \<^verbatim>\<open>react\<close> a \<^verbatim>\<open>static_import\<close> entry with line 1 and the text of that line,
  and for \<^verbatim>\<open>lodash\<close> a \<^verbatim>\<open>require\<close> entry with the offset 45 as its line and an empty
  snippet; the second scan of the unchanged tree hits the cache and records for each of
  the two the synthetic entry, without a line and with the snippet \<^verbatim>\<open>(cached)\<close>. The two
  lists of results differ, in the evidence; confidence and status are the same.
\<close>

theorem C3_second_scan_differs:
  "scan_packages (runScan ex2_platform ''now'' ex_options ex2_fs) \<noteq>
   scan_packages (runScan ex2_platform ''now'' ex_options
                    (scan_disk ex2_fs (runScan ex2_platform ''now'' ex_options ex2_fs))) \<and>
   map r_evidence (scan_packages (runScan ex2_platform ''now'' ex_options ex2_fs))
     = [ [\<lparr>e_file = ''/repo/app/page.tsx'', e_line = Some 1, e_type = ''static_import'',
            e_snippet = Some ''import type { FC } from 'react';''\<rparr>],
         [\<lparr>e_file = ''/repo/app/page.tsx'', e_line = Some 45, e_type = ''require'',
            e_snippet = Some []\<rparr>],
         []] \<and>
   map r_evidence
     (scan_packages (runScan ex2_platform ''now'' ex_options
                       (scan_disk ex2_fs (runScan ex2_platform ''now'' ex_options ex2_fs))))
     = [ [\<lparr>e_file = ''/repo/app/page.tsx'', e_line = None, e_type = ''static_import'',
            e_snippet = Some ''(cached)''\<rparr>],
         [\<lparr>e_file = ''/repo/app/page.tsx'', e_line = None, e_type = ''static_import'',
            e_snippet = Some ''(cached)''\<rparr>],
         []] \<and>
   map r_confidence (scan_packages (runScan ex2_platform ''now'' ex_options ex2_fs))
     = [Some 1, Some 1, Some 0] \<and>
   map r_confidence
     (scan_packages (runScan ex2_platform ''now'' ex_options
                       (scan_disk ex2_fs (runScan ex2_platform ''now'' ex_options ex2_fs))))
     = [Some 1, Some 1, Some 0] \<and>
   map r_status (scan_packages (runScan ex2_platform ''now'' ex_options ex2_fs))
     = [used, used, unused] \<and>
   map r_status
     (scan_packages (runScan ex2_platform ''now'' ex_options
                       (scan_disk ex2_fs (runScan ex2_platform ''now'' ex_options ex2_fs))))
     = [used, used, unused]"
  by code_simp

text \<open>
  Claim C3, amended. Let the trees of the parser be those of \<^verbatim>\<open>@swc/core\<close>, let a scan
  return, over a list of distinct files that have distinct cache files, and let a second
  scan of the unchanged tree find the same files. The second scan then returns as well and
  leaves the file system as it found it, so that every later scan repeats the second one.
  Its result for each dependency has the same name, section, status, confidence, usage
  side and notes as the first. The evidence is not the same: it is empty exactly when the
  first scan's is, it is never longer (nothing is duplicated), it names the same files,
  and each of its entries is an entry of the first scan or the synthetic entry of a cache
  hit. A cache hit on a file whose cached list of names can be iterated replays one
  synthetic entry (\<^verbatim>\<open>static_import\<close>, no line, snippet \<^verbatim>\<open>(cached)\<close>) for each occurrence of a
  name in that list, and nothing else.
\<close>

theorem C3_rerun:
  assumes "runScan pf now options fs = Inr (r1, fs1)"
    and "findFiles pf options fs = Inr fl"
    and "findFiles pf options fs1 = Inr fl"
    and "distinct fl"
    and "inj_on (getCacheFilePath pf (scan_cache pf options)) (set fl)"
    and "swc_trees pf"
  shows "(\<exists>r2. runScan pf now' options fs1 = Inr (r2, fs1) \<and>
            list_all2 result_rerun (s_packages r1) (s_packages r2)) \<and>
         (\<forall>cache f c pkgs names st.
            CacheManager_get pf cache (disk st) f = Inr (Some c) \<and> c_imports c = Some pkgs \<longrightarrow>
            processFile pf cache f names st = Normal (replay_names f (c_isClient c) pkgs st) \<and>
            disk (replay_names f (c_isClient c) pkgs st) = disk st \<and>
            (\<forall>d. ev_of (replay_names f (c_isClient c) pkgs st) d =
                   ev_of st d @ replicate (count_list pkgs d) (cached_entry f)))"
proof -
  have "processFile pf cache f names st = Normal (replay_names f (c_isClient c) pkgs st) \<and>
        disk (replay_names f (c_isClient c) pkgs st) = disk st \<and>
        (\<forall>d. ev_of (replay_names f (c_isClient c) pkgs st) d =
               ev_of st d @ replicate (count_list pkgs d) (cached_entry f))"
    if "CacheManager_get pf cache (disk st) f = Inr (Some c)" and "c_imports c = Some pkgs"
    for cache f c pkgs names st
    using processFile_hit [OF that(1), of names] that(2)
    by (simp add: replay_cached_def replay_names_disk replay_names_ev)
  with rerun_scan [OF assms, of now'] show ?thesis by blast
qed

theorem C3_rerun_witness:
  "swc_trees ex2_platform \<and>
   distinct [''/repo/app/page.tsx''] \<and>
   inj_on (getCacheFilePath ex2_platform (scan_cache ex2_platform ex_options))
     (set [''/repo/app/page.tsx'']) \<and>
   findFiles ex2_platform ex_options ex2_fs = Inr [''/repo/app/page.tsx''] \<and>
   (\<exists>r1 fs1 r2.
      runScan ex2_platform ''now'' ex_options ex2_fs = Inr (r1, fs1) \<and>
      findFiles ex2_platform ex_options fs1 = Inr [''/repo/app/page.tsx''] \<and>
      runScan ex2_platform ''later'' ex_options fs1 = Inr (r2, fs1) \<and>
      list_all2 result_rerun (s_packages r1) (s_packages r2) \<and>
      processFile ex2_platform (scan_cache ex2_platform ex_options) ''/repo/app/page.tsx''
        [''react'', ''lodash'', ''typescript'']
        \<lparr>evidenceMap = Map.empty, sideMap = Map.empty, disk = fs1\<rparr>
      = Normal (replay_names ''/repo/app/page.tsx'' (Some False) [''react'', ''lodash'']
                  \<lparr>evidenceMap = Map.empty, sideMap = Map.empty, disk = fs1\<rparr>))"
proof -
  let ?f = "''/repo/app/page.tsx''"
  let ?cache = "scan_cache ex2_platform ex_options"
  let ?E = "\<lparr>c_hash = ''00112233445566778899'', c_mtime = 1700,
             c_imports = Some [''react'', ''lodash''], c_isClient = Some False\<rparr>"
  have "swc_node ex2_ast" by code_simp
  then have swc: "swc_trees ex2_platform"
    by (auto simp: swc_trees_def ex2_platform_def split: if_splits)
  have found: "findFiles ex2_platform ex_options fs = Inr [?f]" for fs
    by (simp add: findFiles_def ex2_platform_def)
  have dist: "distinct [?f]" by simp
  have inj: "inj_on (getCacheFilePath ex2_platform ?cache) (set [?f])" by simp
  have "isl (runScan ex2_platform ''now'' ex_options ex2_fs) = False"
    by code_simp
  then obtain r1 fs1 where run1: "runScan ex2_platform ''now'' ex_options ex2_fs = Inr (r1, fs1)"
    by (cases "runScan ex2_platform ''now'' ex_options ex2_fs") auto
  then have fs1: "fs1 = scan_disk ex2_fs (runScan ex2_platform ''now'' ex_options ex2_fs)"
    by (simp add: scan_disk_def)
  have "CacheManager_get ex2_platform ?cache
          (scan_disk ex2_fs (runScan ex2_platform ''now'' ex_options ex2_fs)) ?f = Inr (Some ?E)"
    by code_simp
  then have get: "CacheManager_get ex2_platform ?cache
      (disk \<lparr>evidenceMap = Map.empty, sideMap = Map.empty, disk = fs1\<rparr>) ?f = Inr (Some ?E)"
    unfolding fs1 by simp
  note c3 = C3_rerun [OF run1 found found dist inj swc, of "''later''"]
  from c3 obtain r2 where
    run2: "runScan ex2_platform ''later'' ex_options fs1 = Inr (r2, fs1)"
    and rel: "list_all2 result_rerun (s_packages r1) (s_packages r2)" by blast
  from c3 have "\<forall>cache f c pkgs names st.
      CacheManager_get ex2_platform cache (disk st) f = Inr (Some c) \<and> c_imports c = Some pkgs \<longrightarrow>
      processFile ex2_platform cache f names st
        = Normal (replay_names f (c_isClient c) pkgs st) \<and>
      disk (replay_names f (c_isClient c) pkgs st) = disk st \<and>
      (\<forall>d. ev_of (replay_names f (c_isClient c) pkgs st) d =
             ev_of st d @ replicate (count_list pkgs d) (cached_entry f))"
    by (rule conjunct2)
  from this [rule_format, of ?cache "\<lparr>evidenceMap = Map.empty, sideMap = Map.empty, disk = fs1\<rparr>"
      ?f ?E "[''react'', ''lodash'']" "[''react'', ''lodash'', ''typescript'']"] get
  have hit: "processFile ex2_platform ?cache ?f [''react'', ''lodash'', ''typescript'']
        \<lparr>evidenceMap = Map.empty, sideMap = Map.empty, disk = fs1\<rparr>
      = Normal (replay_names ?f (Some False) [''react'', ''lodash'']
                  \<lparr>evidenceMap = Map.empty, sideMap = Map.empty, disk = fs1\<rparr>)"
    by simp
  have ex: "\<exists>r1 fs1 r2.
      runScan ex2_platform ''now'' ex_options ex2_fs = Inr (r1, fs1) \<and>
      findFiles ex2_platform ex_options fs1 = Inr [?f] \<and>
      runScan ex2_platform ''later'' ex_options fs1 = Inr (r2, fs1) \<and>
      list_all2 result_rerun (s_packages r1) (s_packages r2) \<and>
      processFile ex2_platform ?cache ?f [''react'', ''lodash'', ''typescript'']
        \<lparr>evidenceMap = Map.empty, sideMap = Map.empty, disk = fs1\<rparr>
      = Normal (replay_names ?f (Some False) [''react'', ''lodash'']
                  \<lparr>evidenceMap = Map.empty, sideMap = Map.empty, disk = fs1\<rparr>)"
    by (rule exI [of _ r1], rule exI [of _ fs1], rule exI [of _ r2])
      (intro conjI run1 found run2 rel hit)
  show ?thesis by (intro conjI swc dist inj found ex)
qed

subsection \<open>The fallback of Stage B\<close>

text \<open>
  With candidates from Stage A the file is readable, so the \<^verbatim>\<open>try\<close> block of Stage B
  completes, whether or not the parser fails: the \<^verbatim>\<open>catch\<close> block with the
  \<^verbatim>\<open>string_reference\<close> fallback is not entered, and after a failed parse no evidence is
  recorded for the file.
\<close>

lemma stageB_try_completes:
  assumes "fastScan (disk st) f names \<noteq> []"
  shows "\<exists>st'. stageB_try pf cache f names stats st = Normal st'"
proof -
  from assms obtain content where "files (disk st) f = Some content"
    using fastScan_candidates_readable by blast
  from stageB_try_readable [OF this] show ?thesis by blast
qed

lemma parse_failure_no_evidence:
  assumes "files (disk st) f = Some content"
    and "parseFile pf content f = []"
  shows "ev_of (stageB_state pf cache f names content stats st) d = ev_of st d"
    and "mtimes (disk st) f = Some m \<Longrightarrow> enabled cache \<Longrightarrow>
         write_ok (disk st) (getCacheFilePath pf cache f) \<Longrightarrow>
         cache_files (disk (stageB_state pf cache f names content (mtimes (disk st) f) st))
           (getCacheFilePath pf cache f)
         = Some (Stored \<lparr>c_hash = createHash pf content, c_mtime = m, c_imports = Some [],
                          c_isClient = Some (detectUseClient content)\<rparr>)"
proof -
  show "ev_of (stageB_state pf cache f names content stats st) d = ev_of st d"
    using assms(2) by (simp add: stageB_state_ev)
  assume "mtimes (disk st) f = Some m" "enabled cache"
    "write_ok (disk st) (getCacheFilePath pf cache f)"
  then show "cache_files (disk (stageB_state pf cache f names content (mtimes (disk st) f) st))
           (getCacheFilePath pf cache f)
         = Some (Stored \<lparr>c_hash = createHash pf content, c_mtime = m, c_imports = Some [],
                          c_isClient = Some (detectUseClient content)\<rparr>)"
    using assms(2)
    by (simp add: stageB_state_disk CacheManager_set_def Let_def stageB_entry_def
        found_packages_def declared_imports_def)
qed

subsection \<open>When a scan is rejected\<close>

text \<open>
  The replay of a cache hit stands outside the \<^verbatim>\<open>try\<close> block of \<^verbatim>\<open>processFile\<close>. A cache
  file whose value has the modification time of its source file and no list of names that
  can be iterated makes the scan throw.
\<close>

lemma runScan_rejected_on_misshapen_cache_entry:
  "(case runScan ex2_platform ''now'' ex_options
           (ex2_fs\<lparr>cache_files :=
              [''/repo/.midna-cache/0011223344556677__repo_app_page.tsx.json''
                 \<mapsto> Stored ex_misshapen]\<rparr>) of
      Inl e \<Rightarrow> e = TypeError
    | Inr r \<Rightarrow> False)"
  by code_simp

end
